theory Spec2Isabelle
  imports Complex_Main
begin

section \<open>Data model of wrapper.py\<close>

text \<open>
  The module \<^verbatim>\<open>src/src/wrapper.py\<close> re-wraps OpenEXR files through the OpenImageIO
  binding. The image library is a collaborator of the program: its objects are modelled
  as records holding the fields the program reads or writes, its calls that can fail
  are answered by an explicit \<open>codec\<close> record, and every call made on the output file is
  logged in a trace. Diagnostic \<^verbatim>\<open>print\<close> calls are left out.
\<close>

text \<open>Python values that occur as attribute values; \<open>POther\<close> stands for a value of any
  other library type and carries its printed form.\<close>

datatype pyval = PStr string | PInt int | PFloat real | POther string | PNone

datatype exn = RuntimeWarning | IndexError | AttributeError

record ParamValue =
  pv_name :: string
  pv_type :: string
  pv_value :: pyval

record ROI =
  xbegin :: int
  xend :: int
  ybegin :: int
  yend :: int
  zbegin :: int
  zend :: int
  chbegin :: int
  chend :: int

record ImageSpec =
  spec_x :: int
  spec_y :: int
  spec_z :: int
  width :: int
  height :: int
  depth :: int
  full_x :: int
  full_y :: int
  full_z :: int
  full_width :: int
  full_height :: int
  full_depth :: int
  nchannels :: int
  format :: string
  channelformats :: "string list"
  channelnames :: "string list"
  extra_attribs :: "ParamValue list"

text \<open>An \<^verbatim>\<open>ImageBuf\<close> read from a file: the spec of the subimage and its pixel values,
  addressed by column, row and channel.\<close>

record ImageBuf =
  nativespec :: ImageSpec
  pixels :: "int \<Rightarrow> int \<Rightarrow> int \<Rightarrow> real"

text \<open>A readable source file: subimage 0 and the further subimages.\<close>

type_synonym image_file = "ImageBuf \<times> ImageBuf list"

text \<open>Pixel buffers computed by the library are kept symbolic: the buffer records from
  which image it was taken, which channels were extracted and to which region it was cut.\<close>

datatype pixelbuf =
    Loaded ImageBuf
  | Channels pixelbuf "string list"
  | Cut pixelbuf ROI

text \<open>The calls made on the \<^verbatim>\<open>ImageOutput\<close>, in order.\<close>

datatype call =
    Create
  | Open_specs "ImageSpec list"
  | Open_spec ImageSpec
  | Open_append ImageSpec
  | Write_image pixelbuf
  | Close_output

text \<open>What the library answers: the region \<^verbatim>\<open>ImageBufAlgo.nonzero_region\<close> returns,
  whether \<^verbatim>\<open>erase_attribute\<close> accepts an attribute (it raises \<^verbatim>\<open>TypeError\<close>
  otherwise), whether \<^verbatim>\<open>ImageOutput.create\<close> returns an object, and the boolean results
  of the first \<^verbatim>\<open>open\<close>, of the append-mode \<^verbatim>\<open>open\<close> for part \<open>i\<close> and of
  \<^verbatim>\<open>write_image\<close> for part \<open>i\<close>.\<close>

record codec =
  nonzero_region :: "ImageBuf \<Rightarrow> ROI \<Rightarrow> ROI"
  can_erase :: "ParamValue \<Rightarrow> bool"
  create_ok :: bool
  open_ok :: bool
  append_ok :: "nat \<Rightarrow> bool"
  write_ok :: "nat \<Rightarrow> bool"

text \<open>The dictionary \<^verbatim>\<open>properties\<close> that \<^verbatim>\<open>rewrap\<close> builds from its locals and
  threads through \<^verbatim>\<open>split_subimages\<close>.\<close>

record properties =
  autocrop :: bool
  multipart :: bool
  rm_manifest :: bool
  fix_channels :: bool
  compression :: "string option"
  verbose :: bool
  roi :: ROI
  recent_sub :: string
  current_sub :: string
  sub_ch_count :: int
  sub_start :: int
  sub_end :: int
  sub_specs :: "ImageSpec list"
  sub_pixels :: "pixelbuf list"
  sub_names :: "pyval list"
  nsubimages :: int

section \<open>Python and library primitives\<close>

text \<open>\<^verbatim>\<open>xs[i]\<close>: negative indices count from the end, out of range raises.\<close>

definition py_index :: "'a list \<Rightarrow> int \<Rightarrow> 'a option" where
  "py_index xs i =
     (let n = int (length xs); j = (if i < 0 then n + i else i)
      in if 0 \<le> j \<and> j < n then Some (xs ! nat j) else None)"

text \<open>\<^verbatim>\<open>xs[a:b]\<close>: negative bounds count from the end, bounds are clipped to the list.\<close>

definition py_bound :: "int \<Rightarrow> int \<Rightarrow> int" where
  "py_bound n i = (if i < 0 then max 0 (i + n) else min i n)"

definition py_slice :: "'a list \<Rightarrow> int \<Rightarrow> int \<Rightarrow> 'a list" where
  "py_slice xs a b =
     (let n = int (length xs); s = py_bound n a; e = py_bound n b
      in take (nat (e - s)) (drop (nat s) xs))"

fun starts_with :: "string \<Rightarrow> string \<Rightarrow> bool" where
  "starts_with [] s = True"
| "starts_with (p # ps) [] = False"
| "starts_with (p # ps) (c # cs) = (p = c \<and> starts_with ps cs)"

text \<open>\<^verbatim>\<open>needle in s\<close> on strings.\<close>

fun py_in :: "string \<Rightarrow> string \<Rightarrow> bool" where
  "py_in needle [] = (needle = [])"
| "py_in needle (c # cs) = (starts_with needle (c # cs) \<or> py_in needle cs)"

text \<open>\<^verbatim>\<open>s.strip("'")\<close>.\<close>

definition strip_quote :: "string \<Rightarrow> string" where
  "strip_quote s =
     rev (dropWhile (\<lambda>c. c = CHR 0x27) (rev (dropWhile (\<lambda>c. c = CHR 0x27) s)))"

text \<open>Truth value of \<^verbatim>\<open>properties.get('compression')\<close>.\<close>

definition truthy :: "string option \<Rightarrow> bool" where
  "truthy c = (case c of None \<Rightarrow> False | Some s \<Rightarrow> s \<noteq> [])"

text \<open>The library keeps one attribute per name: setting an attribute replaces the entry
  of that name or appends a new one.\<close>

fun set_attr :: "string \<Rightarrow> string \<Rightarrow> pyval \<Rightarrow> ParamValue list \<Rightarrow> ParamValue list" where
  "set_attr n t v [] = [\<lparr>pv_name = n, pv_type = t, pv_value = v\<rparr>]"
| "set_attr n t v (a # as) =
     (if pv_name a = n then \<lparr>pv_name = n, pv_type = t, pv_value = v\<rparr> # as
      else a # set_attr n t v as)"

text \<open>\<^verbatim>\<open>spec.attribute(name, value)\<close>: the type is taken from the Python value; a value
  that is no string, integer or float sets nothing.\<close>

definition attribute :: "string \<Rightarrow> pyval \<Rightarrow> ParamValue list \<Rightarrow> ParamValue list" where
  "attribute n v attrs =
     (case v of
        PStr s \<Rightarrow> set_attr n ''string'' v attrs
      | PInt i \<Rightarrow> set_attr n ''int'' v attrs
      | PFloat f \<Rightarrow> set_attr n ''float'' v attrs
      | _ \<Rightarrow> attrs)"

text \<open>\<^verbatim>\<open>spec.attribute(name, type, value)\<close>.\<close>

definition attribute_typed :: "string \<Rightarrow> string \<Rightarrow> pyval \<Rightarrow> ParamValue list \<Rightarrow> ParamValue list" where
  "attribute_typed n t v attrs = set_attr n t v attrs"

text \<open>\<^verbatim>\<open>spec.getattribute(name)\<close>: the value, or \<^verbatim>\<open>None\<close>.\<close>

fun getattribute :: "ParamValue list \<Rightarrow> string \<Rightarrow> pyval" where
  "getattribute [] n = PNone"
| "getattribute (a # as) n = (if pv_name a = n then pv_value a else getattribute as n)"

text \<open>\<^verbatim>\<open>spec.erase_attribute(name)\<close>.\<close>

definition erase_attribute :: "string \<Rightarrow> ParamValue list \<Rightarrow> ParamValue list" where
  "erase_attribute n attrs = filter (\<lambda>a. pv_name a \<noteq> n) attrs"

text \<open>\<^verbatim>\<open>oiio.ImageSpec(width, height, nchannels, typedesc)\<close>; the default channel names
  are overwritten by the program before the spec is used.\<close>

definition new_ImageSpec :: "int \<Rightarrow> int \<Rightarrow> int \<Rightarrow> string \<Rightarrow> ImageSpec" where
  "new_ImageSpec w h n t =
     \<lparr>spec_x = 0, spec_y = 0, spec_z = 0, width = w, height = h, depth = 1,
      full_x = 0, full_y = 0, full_z = 0, full_width = w, full_height = h, full_depth = 1,
      nchannels = n, format = t, channelformats = [], channelnames = [],
      extra_attribs = []\<rparr>"

text \<open>The property \<^verbatim>\<open>roi\<close> of a spec or an image buffer, read and written.\<close>

definition get_roi :: "ImageSpec \<Rightarrow> ROI" where
  "get_roi s =
     \<lparr>xbegin = spec_x s, xend = spec_x s + width s,
      ybegin = spec_y s, yend = spec_y s + height s,
      zbegin = spec_z s, zend = spec_z s + depth s,
      chbegin = 0, chend = nchannels s\<rparr>"

definition set_roi :: "ROI \<Rightarrow> ImageSpec \<Rightarrow> ImageSpec" where
  "set_roi r s =
     s\<lparr>spec_x := xbegin r, spec_y := ybegin r, spec_z := zbegin r,
       width := xend r - xbegin r, height := yend r - ybegin r, depth := zend r - zbegin r\<rparr>"

section \<open>split_subimages\<close>

text \<open>Lines 126-129: the layer a channel belongs to.\<close>

definition group_key :: "string \<Rightarrow> string" where
  "group_key channel_name =
     (if channel_name \<in> set [''R'', ''G'', ''B'', ''A''] then ''rgba''
      else takeWhile (\<lambda>c. c \<noteq> CHR ''.'') channel_name)"

text \<open>Lines 174-178: the name a channel is written with when \<^verbatim>\<open>fix_channels\<close> is set.\<close>

definition fix_name :: "string \<Rightarrow> string" where
  "fix_name channel_name =
     (if py_in ''depth.z'' channel_name then ''depth.Z'' else channel_name)"

text \<open>Lines 157-166: the metadata copied to the first subimage.\<close>

definition copy_attrib :: "bool \<Rightarrow> ParamValue list \<Rightarrow> ParamValue \<Rightarrow> ParamValue list" where
  "copy_attrib rm acc a =
     (if rm \<and> py_in ''manifest'' (pv_name a) then acc
      else if pv_type a \<in> set [''string'', ''int'', ''float'']
        then attribute (pv_name a) (pv_value a) acc
      else attribute_typed (pv_name a) (pv_type a) (pv_value a) acc)"

definition copy_metadata :: "bool \<Rightarrow> ParamValue list \<Rightarrow> ParamValue list \<Rightarrow> ParamValue list" where
  "copy_metadata rm src_attribs acc = foldl (copy_attrib rm) acc src_attribs"

text \<open>Lines 142-145: the pixel type of the new spec.\<close>

definition typedesc_at :: "ImageBuf \<Rightarrow> int \<Rightarrow> string option" where
  "typedesc_at image_in start =
     (if channelformats (nativespec image_in) \<noteq> []
      then py_index (channelformats (nativespec image_in)) start
      else Some (format (nativespec image_in)))"

text \<open>Lines 171-172: the channels of the subimage, under their names in the source.\<close>

definition src_channel_names :: "ImageBuf \<Rightarrow> properties \<Rightarrow> string list" where
  "src_channel_names image_in p =
     py_slice (channelnames (nativespec image_in)) (sub_start p) (sub_end p + 1)"

text \<open>Lines 167-170: the compression attribute of the subimage.\<close>

definition set_compression :: "ImageSpec \<Rightarrow> string option \<Rightarrow> ParamValue list \<Rightarrow> ParamValue list" where
  "set_compression ns cmpr attrs =
     (if truthy cmpr then attribute ''compression'' (PStr (strip_quote (the cmpr))) attrs
      else attribute ''compression'' (getattribute (extra_attribs ns) ''compression'') attrs)"

text \<open>Lines 146-182: the spec of the subimage. It reads \<open>sub_start\<close>, \<open>sub_end\<close>,
  \<open>sub_ch_count\<close> and \<open>recent_sub\<close> from the properties.\<close>

definition build_spec :: "ImageBuf \<Rightarrow> properties \<Rightarrow> string \<Rightarrow> ImageSpec" where
  "build_spec image_in p typedesc =
     (let ns = nativespec image_in;
          s0 = new_ImageSpec (width ns) (height ns) (sub_ch_count p) typedesc;
          s1 = (set_roi (roi p) s0)
                 \<lparr>full_width := full_width ns, full_height := full_height ns,
                  depth := depth ns,
                  full_x := full_x ns, full_y := full_y ns, full_z := full_z ns\<rparr>;
          a1 = (if sub_start p = 0
                then copy_metadata (rm_manifest p) (extra_attribs ns) (extra_attribs s1)
                else extra_attribs s1);
          a2 = set_compression ns (compression p) a1;
          dst_channel_names = (if fix_channels p then map fix_name (src_channel_names image_in p)
                               else src_channel_names image_in p);
          a3 = attribute ''name'' (PStr (recent_sub p)) a2
      in s1\<lparr>channelnames := dst_channel_names, extra_attribs := a3\<rparr>)"

text \<open>Lines 142-188: the body run when a subimage is found. It appends one name, one
  spec and one pixel buffer and resets the channel count.\<close>

definition new_subimage :: "ImageBuf \<Rightarrow> properties \<Rightarrow> exn + properties" where
  "new_subimage image_in p =
     (case typedesc_at image_in (sub_start p) of
        None \<Rightarrow> Inl IndexError
      | Some typedesc \<Rightarrow>
          Inr (p\<lparr>sub_names := sub_names p @ [PStr (recent_sub p)],
                 sub_specs := sub_specs p @ [build_spec image_in p typedesc],
                 sub_pixels := sub_pixels p
                    @ [Cut (Channels (Loaded image_in) (src_channel_names image_in p)) (roi p)],
                 sub_ch_count := 0\<rparr>))"

text \<open>Lines 126-191: one iteration of the loop over the channel names; the state is the
  local \<open>channelindex\<close> and the properties.\<close>

definition loop_body :: "ImageBuf \<Rightarrow> string \<Rightarrow> int \<times> properties \<Rightarrow> exn + int \<times> properties" where
  "loop_body image_in channel_name st =
     (let channelindex = fst st;
          p1 = (snd st)\<lparr>current_sub := group_key channel_name\<rparr>;
          n = nchannels (nativespec image_in)
      in if (recent_sub p1 \<noteq> [] \<and> current_sub p1 \<noteq> recent_sub p1) \<or> channelindex + 1 = n
         then
           (let last_channel = (channelindex + 1 = n);
                p2 = (if last_channel then p1\<lparr>sub_ch_count := sub_ch_count p1 + 1\<rparr> else p1);
                ci2 = (if last_channel then channelindex + 1 else channelindex);
                p3 = p2\<lparr>sub_start := ci2 - sub_ch_count p2, sub_end := ci2 - 1\<rparr>
            in case new_subimage image_in p3 of
                 Inl e \<Rightarrow> Inl e
               | Inr p4 \<Rightarrow>
                   Inr (ci2 + 1,
                        p4\<lparr>recent_sub := current_sub p4, sub_ch_count := sub_ch_count p4 + 1\<rparr>))
         else Inr (channelindex + 1,
                   p1\<lparr>recent_sub := current_sub p1, sub_ch_count := sub_ch_count p1 + 1\<rparr>))"

fun channel_loop :: "ImageBuf \<Rightarrow> string list \<Rightarrow> int \<times> properties \<Rightarrow> exn + int \<times> properties" where
  "channel_loop image_in [] st = Inr st"
| "channel_loop image_in (channel_name # rest) st =
     (case loop_body image_in channel_name st of
        Inl e \<Rightarrow> Inl e
      | Inr st' \<Rightarrow> channel_loop image_in rest st')"

text \<open>Lines 116-195. The result \<open>None\<close> is the bare \<^verbatim>\<open>return\<close> after the internal
  error message.\<close>

definition split_subimages :: "ImageBuf \<Rightarrow> properties \<Rightarrow> exn + properties option" where
  "split_subimages image_in p =
     (let p0 = p\<lparr>roi := (roi p)\<lparr>chend := 4\<rparr>\<rparr> in
      case channel_loop image_in (channelnames (nativespec image_in)) (0, p0) of
        Inl e \<Rightarrow> Inl e
      | Inr st \<Rightarrow>
          (if length (sub_specs (snd st)) \<noteq> length (sub_pixels (snd st)) then Inr None
           else Inr (Some (snd st))))"

section \<open>rewrap\<close>

text \<open>Lines 214-219 of \<^verbatim>\<open>update_specs\<close>. The \<^verbatim>\<open>for\<close> statement walks the attribute
  list of the spec itself, position by position, while the body erases from that same
  list: after an erasure the later entries have moved one place down and the walk goes
  on at the next position. A \<^verbatim>\<open>TypeError\<close> of \<^verbatim>\<open>erase_attribute\<close> is re-raised as
  \<^verbatim>\<open>RuntimeWarning\<close>.\<close>

function erase_loop :: "codec \<Rightarrow> nat \<Rightarrow> ParamValue list \<Rightarrow> exn + ParamValue list" where
  "erase_loop cd i attrs =
     (if i < length attrs then
        (let a = attrs ! i in
         if py_in ''manifest'' (pv_name a) then
           (if can_erase cd a then erase_loop cd (i + 1) (erase_attribute (pv_name a) attrs)
            else Inl RuntimeWarning)
         else erase_loop cd (i + 1) attrs)
      else Inr attrs)"
  by pat_completeness auto
termination
proof (relation "measure (\<lambda>(cd, i, attrs). length attrs - i)")
  show "wf (measure (\<lambda>(cd, i, attrs). length attrs - i))" by simp
next
  fix cd :: codec and i :: nat and attrs :: "ParamValue list" and a :: ParamValue
  assume "i < length attrs"
  moreover have "length (erase_attribute (pv_name a) attrs) \<le> length attrs"
    by (simp add: erase_attribute_def)
  ultimately show "((cd, i + 1, erase_attribute (pv_name a) attrs), (cd, i, attrs))
      \<in> measure (\<lambda>(cd, i, attrs). length attrs - i)"
    by simp
next
  fix cd :: codec and i :: nat and attrs :: "ParamValue list"
  assume "i < length attrs"
  then show "((cd, i + 1, attrs), (cd, i, attrs)) \<in> measure (\<lambda>(cd, i, attrs). length attrs - i)"
    by simp
qed

declare erase_loop.simps [simp del]

text \<open>Lines 211-222.\<close>

definition update_specs :: "codec \<Rightarrow> ImageSpec \<Rightarrow> properties \<Rightarrow> exn + ImageSpec" where
  "update_specs cd spec p =
     (let s1 = set_roi (roi p) spec in
      case (if rm_manifest p then erase_loop cd 0 (extra_attribs s1)
            else Inr (extra_attribs s1)) of
        Inl e \<Rightarrow> Inl e
      | Inr attrs \<Rightarrow>
          Inr (if truthy (compression p)
               then s1\<lparr>extra_attribs :=
                         attribute ''Compression'' (PStr (strip_quote (the (compression p)))) attrs\<rparr>
               else s1\<lparr>extra_attribs := attrs\<rparr>))"

text \<open>Lines 226-228: the region every output part is cut to.\<close>

definition data_window :: "codec \<Rightarrow> ImageBuf \<Rightarrow> bool \<Rightarrow> ROI" where
  "data_window cd image_in crop =
     (if crop then nonzero_region cd image_in (get_roi (nativespec image_in))
      else get_roi (nativespec image_in))"

text \<open>Lines 247-254: the loop over the subimages of a source that is multi-part already.\<close>

fun subimage_loop :: "codec \<Rightarrow> ImageBuf list \<Rightarrow> properties \<Rightarrow> exn + properties" where
  "subimage_loop cd [] p = Inr p"
| "subimage_loop cd (image_in # rest) p =
     (case update_specs cd (nativespec image_in) p of
        Inl e \<Rightarrow> Inl e
      | Inr spec \<Rightarrow>
          subimage_loop cd rest
            (p\<lparr>sub_specs := sub_specs p @ [spec],
               sub_pixels := sub_pixels p @ [Cut (Loaded image_in) (roi p)],
               sub_names := sub_names p
                  @ [getattribute (extra_attribs (nativespec image_in)) ''name'']\<rparr>))"

text \<open>Lines 265-275: the loop over the pixel buffers. The result \<open>Inr True\<close> says that the
  loop ran to its end, \<open>Inr False\<close> that \<^verbatim>\<open>rewrap\<close> returned \<^verbatim>\<open>False\<close> from inside it.
  The value \<^verbatim>\<open>write_image\<close> returns is not read by the program.\<close>

fun write_parts :: "codec \<Rightarrow> properties \<Rightarrow> nat \<Rightarrow> pixelbuf list \<Rightarrow> (exn + bool) \<times> call list" where
  "write_parts cd p i [] = (Inr True, [])"
| "write_parts cd p i (px # rest) =
     (if verbose p \<and> py_index (sub_names p) (int i) = None then (Inl IndexError, [])
      else if i \<noteq> 0 then
        (case py_index (sub_specs p) (int i) of
           None \<Rightarrow> (Inl IndexError, [])
         | Some s \<Rightarrow>
             if \<not> append_ok cd i then (Inr False, [Open_append s])
             else (let r = write_parts cd p (i + 1) rest
                   in (fst r, Open_append s # Write_image px # snd r)))
      else (let r = write_parts cd p (i + 1) rest in (fst r, Write_image px # snd r)))"

text \<open>Lines 259-286. \<^verbatim>\<open>ImageOutput.create\<close> is called first and does not raise: when it
  fails it returns \<^verbatim>\<open>None\<close>, and the first call made on that value, \<^verbatim>\<open>open\<close>, raises
  \<^verbatim>\<open>AttributeError\<close>. In the single-part branch \<^verbatim>\<open>update_specs\<close> runs before that
  call.\<close>

definition write_output :: "codec \<Rightarrow> ImageBuf \<Rightarrow> properties \<Rightarrow> (exn + bool) \<times> call list" where
  "write_output cd image_in p =
     (if sub_specs p \<noteq> [] then
        (if \<not> create_ok cd then (Inl AttributeError, [Create])
         else if \<not> open_ok cd then (Inr False, [Create, Open_specs (sub_specs p)])
         else (let r = write_parts cd p 0 (sub_pixels p) in
               if fst r = Inr True
               then (Inr True, [Create, Open_specs (sub_specs p)] @ snd r @ [Close_output])
               else (fst r, [Create, Open_specs (sub_specs p)] @ snd r)))
      else
        (case update_specs cd (nativespec image_in) p of
           Inl e \<Rightarrow> (Inl e, [Create])
         | Inr spec \<Rightarrow>
             if \<not> create_ok cd then (Inl AttributeError, [Create])
             else if \<not> open_ok cd then (Inr False, [Create, Open_spec spec])
             else (Inr True,
                   [Create, Open_spec spec, Write_image (Cut (Loaded image_in) (roi p)),
                    Close_output])))"

text \<open>Lines 224-235 and 240: the properties as \<^verbatim>\<open>rewrap\<close> sets them up. The keys
  \<open>current_sub\<close>, \<open>sub_start\<close> and \<open>sub_end\<close> do not exist yet in the dictionary; they are
  written before they are read.\<close>

definition init_properties ::
  "codec \<Rightarrow> image_file \<Rightarrow> bool \<Rightarrow> bool \<Rightarrow> bool \<Rightarrow> bool \<Rightarrow> string option \<Rightarrow> bool \<Rightarrow> properties" where
  "init_properties cd src crop mp rm fixch cmpr verb =
     \<lparr>autocrop = crop, multipart = mp, rm_manifest = rm, fix_channels = fixch,
      compression = (if cmpr = Some ''keep'' then None else cmpr),
      verbose = verb,
      roi = data_window cd (fst src) crop,
      recent_sub = [], current_sub = [], sub_ch_count = 0, sub_start = 0, sub_end = 0,
      sub_specs = [], sub_pixels = [], sub_names = [],
      nsubimages = 1 + int (length (snd src))\<rparr>"

text \<open>Lines 198-286. The result is the value returned or the exception raised, and the
  calls made on the output. When \<^verbatim>\<open>split_subimages\<close> returns \<^verbatim>\<open>None\<close> the lookup
  \<^verbatim>\<open>properties.get\<close> in line 260 raises \<^verbatim>\<open>AttributeError\<close>.\<close>

definition rewrap ::
  "codec \<Rightarrow> image_file \<Rightarrow> bool \<Rightarrow> bool \<Rightarrow> bool \<Rightarrow> bool \<Rightarrow> string option \<Rightarrow> bool
     \<Rightarrow> (exn + bool) \<times> call list" where
  "rewrap cd src crop mp rm fixch cmpr verb =
     (let image_in = fst src;
          p = init_properties cd src crop mp rm fixch cmpr verb
      in if nsubimages p > 1 then
           (case subimage_loop cd (fst src # snd src) p of
              Inl e \<Rightarrow> (Inl e, [])
            | Inr p' \<Rightarrow> write_output cd (last (fst src # snd src)) p')
         else if multipart p then
           (case split_subimages image_in p of
              Inl e \<Rightarrow> (Inl e, [])
            | Inr None \<Rightarrow> (Inl AttributeError, [Create])
            | Inr (Some p') \<Rightarrow> write_output cd image_in p')
         else write_output cd image_in p)"

text \<open>The specs handed to the output, part by part, as read off the calls.\<close>

fun written_specs :: "call list \<Rightarrow> ImageSpec list" where
  "written_specs [] = []"
| "written_specs (Open_specs ss # cs) = ss"
| "written_specs (Open_spec s # cs) = [s]"
| "written_specs (c # cs) = written_specs cs"

fun written_pixels :: "call list \<Rightarrow> pixelbuf list" where
  "written_pixels [] = []"
| "written_pixels (Write_image px # cs) = px # written_pixels cs"
| "written_pixels (c # cs) = written_pixels cs"

section \<open>Notions used in the statements\<close>

text \<open>The subimages that the loop of \<^verbatim>\<open>split_subimages\<close> closes, read off its control
  flow alone: for the channels still to visit, with the loop counter \<open>ci\<close>, the channel
  count \<open>cnt\<close> and the recent key, the list of \<open>(sub_start, sub_end, sub_ch_count,
  recent_sub)\<close> at each closure. That the loop builds exactly these subimages is lemma
  \<open>channel_loop_groups\<close>.\<close>

fun closed_groups ::
  "int \<Rightarrow> int \<Rightarrow> int \<Rightarrow> string \<Rightarrow> string list \<Rightarrow> (int \<times> int \<times> int \<times> string) list" where
  "closed_groups n ci cnt recent [] = []"
| "closed_groups n ci cnt recent (c # cs) =
     (if (recent \<noteq> [] \<and> group_key c \<noteq> recent) \<or> ci + 1 = n then
        (if ci + 1 = n
         then (ci + 1 - (cnt + 1), ci + 1 - 1, cnt + 1, recent)
                # closed_groups n (ci + 1 + 1) 1 (group_key c) cs
         else (ci - cnt, ci - 1, cnt, recent) # closed_groups n (ci + 1) 1 (group_key c) cs)
      else closed_groups n (ci + 1) (cnt + 1) (group_key c) cs)"

definition split_groups :: "ImageBuf \<Rightarrow> (int \<times> int \<times> int \<times> string) list" where
  "split_groups image_in =
     closed_groups (nchannels (nativespec image_in)) 0 0 [] (channelnames (nativespec image_in))"

definition with_group :: "properties \<Rightarrow> int \<times> int \<times> int \<times> string \<Rightarrow> properties" where
  "with_group p g =
     p\<lparr>sub_start := fst g, sub_end := fst (snd g), sub_ch_count := fst (snd (snd g)),
       recent_sub := snd (snd (snd g))\<rparr>"

definition same_options :: "properties \<Rightarrow> properties \<Rightarrow> bool" where
  "same_options p q =
     (roi p = roi q \<and> rm_manifest p = rm_manifest q \<and> compression p = compression q
      \<and> fix_channels p = fix_channels q)"

definition group_spec :: "ImageBuf \<Rightarrow> properties \<Rightarrow> int \<times> int \<times> int \<times> string \<Rightarrow> ImageSpec" where
  "group_spec img p g = build_spec img (with_group p g) (the (typedesc_at img (fst g)))"

definition group_pixels :: "ImageBuf \<Rightarrow> properties \<Rightarrow> int \<times> int \<times> int \<times> string \<Rightarrow> pixelbuf" where
  "group_pixels img p g =
     Cut (Channels (Loaded img) (src_channel_names img (with_group p g))) (roi p)"

text \<open>The channel names a pixel buffer was extracted with.\<close>

fun extracted_names :: "pixelbuf \<Rightarrow> string list" where
  "extracted_names (Loaded im) = channelnames (nativespec im)"
| "extracted_names (Channels b ns) = ns"
| "extracted_names (Cut b r) = extracted_names b"

text \<open>A spec as the library reads it from a file: the channel count is the number of
  channel names, and the per-channel formats are absent or one per channel.\<close>

definition wf_spec :: "ImageSpec \<Rightarrow> bool" where
  "wf_spec s =
     (nchannels s = int (length (channelnames s))
      \<and> (channelformats s = [] \<or> length (channelformats s) = length (channelnames s)))"

text \<open>The attributes on which the loop of \<^verbatim>\<open>update_specs\<close> calls
  \<^verbatim>\<open>erase_attribute\<close>, in the order of the calls; the walk is that of \<open>erase_loop\<close> and
  ends with the first call the library refuses.\<close>

function erase_attempts :: "codec \<Rightarrow> nat \<Rightarrow> ParamValue list \<Rightarrow> ParamValue list" where
  "erase_attempts cd i attrs =
     (if i < length attrs then
        (let a = attrs ! i in
         if py_in ''manifest'' (pv_name a) then
           (if can_erase cd a then a # erase_attempts cd (i + 1) (erase_attribute (pv_name a) attrs)
            else [a])
         else erase_attempts cd (i + 1) attrs)
      else [])"
  by pat_completeness auto
termination
proof (relation "measure (\<lambda>(cd, i, attrs). length attrs - i)")
  show "wf (measure (\<lambda>(cd, i, attrs). length attrs - i))" by simp
next
  fix cd :: codec and i :: nat and attrs :: "ParamValue list" and a :: ParamValue
  assume "i < length attrs"
  moreover have "length (erase_attribute (pv_name a) attrs) \<le> length attrs"
    by (simp add: erase_attribute_def)
  ultimately show "((cd, i + 1, erase_attribute (pv_name a) attrs), (cd, i, attrs))
      \<in> measure (\<lambda>(cd, i, attrs). length attrs - i)"
    by simp
next
  fix cd :: codec and i :: nat and attrs :: "ParamValue list"
  assume "i < length attrs"
  then show "((cd, i + 1, attrs), (cd, i, attrs)) \<in> measure (\<lambda>(cd, i, attrs). length attrs - i)"
    by simp
qed

declare erase_attempts.simps [simp del]

section \<open>Concrete inputs\<close>

text \<open>The library documents \<^verbatim>\<open>nonzero_region\<close> as the smallest rectangle inside the given
  region that holds every non-zero pixel, and as a region without pixels when all of it
  is zero. This is that contract on the pixel function of the model.\<close>

definition nonzero_at :: "ImageBuf \<Rightarrow> ROI \<Rightarrow> int \<Rightarrow> int \<Rightarrow> bool" where
  "nonzero_at b r col row = list_ex (\<lambda>c. pixels b col row c \<noteq> 0) [chbegin r..chend r - 1]"

definition bbox_nonzero_region :: "ImageBuf \<Rightarrow> ROI \<Rightarrow> ROI" where
  "bbox_nonzero_region b r =
     (let cols = filter (\<lambda>col. list_ex (\<lambda>row. nonzero_at b r col row) [ybegin r..yend r - 1])
                   [xbegin r..xend r - 1];
          rows = filter (\<lambda>row. list_ex (\<lambda>col. nonzero_at b r col row) [xbegin r..xend r - 1])
                   [ybegin r..yend r - 1]
      in if cols = [] then r\<lparr>xend := xbegin r, yend := ybegin r\<rparr>
         else r\<lparr>xbegin := hd cols, xend := last cols + 1,
                ybegin := hd rows, yend := last rows + 1\<rparr>)"

definition library_codec :: codec where
  "library_codec =
     \<lparr>nonzero_region = bbox_nonzero_region, can_erase = (\<lambda>a. True), create_ok = True,
      open_ok = True, append_ok = (\<lambda>i. True), write_ok = (\<lambda>i. True)\<rparr>"

definition str_attr :: "string \<Rightarrow> string \<Rightarrow> ParamValue" where
  "str_attr n v = \<lparr>pv_name = n, pv_type = ''string'', pv_value = PStr v\<rparr>"

text \<open>An image of the given width and height at the origin, every pixel zero.\<close>

definition black_image :: "int \<Rightarrow> int \<Rightarrow> string list \<Rightarrow> ParamValue list \<Rightarrow> ImageBuf" where
  "black_image w h names attrs =
     \<lparr>nativespec =
        \<lparr>spec_x = 0, spec_y = 0, spec_z = 0, width = w, height = h, depth = 1,
         full_x = 0, full_y = 0, full_z = 0, full_width = w, full_height = h, full_depth = 1,
         nchannels = int (length names), format = ''half'', channelformats = [],
         channelnames = names, extra_attribs = attrs\<rparr>,
      pixels = (\<lambda>col row c. 0)\<rparr>"

definition layered_image :: ImageBuf where
  "layered_image =
     black_image 2 2 [''R'', ''G'', ''B'', ''A'', ''depth.z'', ''lightgroup.R'', ''lightgroup.G'']
       [str_attr ''compression'' ''zip'', str_attr ''cryptomatte/a/manifest'' ''{}'',
        str_attr ''owner'' ''me'']"

definition gray_image :: ImageBuf where
  "gray_image = black_image 2 2 [''Y''] [str_attr ''compression'' ''zip'']"

definition rz_image :: ImageBuf where
  "rz_image = black_image 2 2 [''R'', ''Z''] [str_attr ''compression'' ''zip'']"

text \<open>The names and channel lists of the subimages that \<^verbatim>\<open>split_subimages\<close> leaves in
  the properties.\<close>

definition planned_layers :: "exn + properties option \<Rightarrow> (pyval list \<times> string list list) option" where
  "planned_layers r =
     (case r of Inr (Some p) \<Rightarrow> Some (sub_names p, map channelnames (sub_specs p)) | _ \<Rightarrow> None)"

definition depth_image :: ImageBuf where
  "depth_image = black_image 2 2 [''depth.z''] [str_attr ''compression'' ''zip'']"

definition red_image :: ImageBuf where
  "red_image = black_image 2 2 [''R''] [str_attr ''compression'' ''zip'']"

definition manifest_image :: ImageBuf where
  "manifest_image =
     black_image 2 2 [''R'']
       [str_attr ''cryptomatte/a/manifest'' ''{}'', str_attr ''cryptomatte/b/manifest'' ''{}'',
        str_attr ''owner'' ''me'']"

text \<open>A library whose \<^verbatim>\<open>write_image\<close> fails, and one that refuses to erase attributes.\<close>

definition codec_write_fails :: codec where
  "codec_write_fails = library_codec\<lparr>write_ok := (\<lambda>i. False)\<rparr>"

definition codec_no_erase :: codec where
  "codec_no_erase = library_codec\<lparr>can_erase := (\<lambda>a. False)\<rparr>"

text \<open>The pixel window of a spec and of a region, as origin and extent.\<close>

definition spec_window :: "ImageSpec \<Rightarrow> int \<times> int \<times> int \<times> int \<times> int \<times> int" where
  "spec_window s = (spec_x s, spec_y s, spec_z s, width s, height s, depth s)"

definition roi_window :: "ROI \<Rightarrow> int \<times> int \<times> int \<times> int \<times> int \<times> int" where
  "roi_window r =
     (xbegin r, ybegin r, zbegin r, xend r - xbegin r, yend r - ybegin r, zend r - zbegin r)"

text \<open>A file of two subimages with different native windows.\<close>

definition small_part :: ImageBuf where
  "small_part = black_image 2 2 [''R''] [str_attr ''name'' ''rgba'']"

definition large_part :: ImageBuf where
  "large_part = black_image 4 4 [''Z''] [str_attr ''name'' ''depth'']"

definition two_part_file :: image_file where
  "two_part_file = (small_part, [large_part])"

text \<open>A file whose second subimage carries the manifest attributes.\<close>

definition late_manifest_file :: image_file where
  "late_manifest_file = (small_part, [manifest_image])"

section \<open>The loop of split_subimages closes the groups of its control flow\<close>

lemma group_spec_cong: "same_options p q \<Longrightarrow> group_spec img p g = group_spec img q g"
  by (simp add: Let_def group_spec_def build_spec_def with_group_def same_options_def src_channel_names_def)

lemma group_pixels_cong: "same_options p q \<Longrightarrow> group_pixels img p g = group_pixels img q g"
  by (simp add: group_pixels_def with_group_def same_options_def src_channel_names_def)

lemma loop_body_keep:
  assumes "\<not> ((recent_sub p \<noteq> [] \<and> group_key c \<noteq> recent_sub p) \<or> ci + 1 = nchannels (nativespec img))"
  shows "\<exists>p1. loop_body img c (ci, p) = Inr (ci + 1, p1) \<and> same_options p1 p
           \<and> sub_specs p1 = sub_specs p \<and> sub_pixels p1 = sub_pixels p \<and> sub_names p1 = sub_names p
           \<and> recent_sub p1 = group_key c \<and> sub_ch_count p1 = sub_ch_count p + 1"
  using assms by (auto simp add: loop_body_def same_options_def Let_def)

lemma loop_body_close:
  assumes "(recent_sub p \<noteq> [] \<and> group_key c \<noteq> recent_sub p) \<or> ci + 1 = nchannels (nativespec img)"
    and "g = (if ci + 1 = nchannels (nativespec img)
              then (ci + 1 - (sub_ch_count p + 1), ci + 1 - 1, sub_ch_count p + 1, recent_sub p)
              else (ci - sub_ch_count p, ci - 1, sub_ch_count p, recent_sub p))"
    and "typedesc_at img (fst g) \<noteq> None"
  shows "\<exists>p1. loop_body img c (ci, p)
            = Inr ((if ci + 1 = nchannels (nativespec img) then ci + 1 + 1 else ci + 1), p1)
           \<and> same_options p1 p
           \<and> sub_specs p1 = sub_specs p @ [group_spec img p g]
           \<and> sub_pixels p1 = sub_pixels p @ [group_pixels img p g]
           \<and> sub_names p1 = sub_names p @ [PStr (snd (snd (snd g)))]
           \<and> recent_sub p1 = group_key c \<and> sub_ch_count p1 = 1"
proof (cases "ci + 1 = nchannels (nativespec img)")
  case True
  with assms(2,3) obtain t where t: "typedesc_at img (ci + 1 - (sub_ch_count p + 1)) = Some t"
    by auto
  show ?thesis using True assms(2) t
    by (simp add: Let_def loop_body_def new_subimage_def same_options_def group_spec_def
        group_pixels_def with_group_def build_spec_def src_channel_names_def)
next
  case False
  with assms(2,3) obtain t where t: "typedesc_at img (ci - sub_ch_count p) = Some t"
    by auto
  show ?thesis using False assms(1,2) t
    by (simp add: Let_def loop_body_def new_subimage_def same_options_def group_spec_def
        group_pixels_def with_group_def build_spec_def src_channel_names_def)
qed

lemma channel_loop_groups:
  assumes "\<forall>g \<in> set (closed_groups (nchannels (nativespec img)) ci (sub_ch_count p) (recent_sub p) todo).
             typedesc_at img (fst g) \<noteq> None"
  shows "\<exists>ci' p'. channel_loop img todo (ci, p) = Inr (ci', p') \<and> same_options p' p
          \<and> sub_specs p' = sub_specs p
               @ map (group_spec img p)
                   (closed_groups (nchannels (nativespec img)) ci (sub_ch_count p) (recent_sub p) todo)
          \<and> sub_pixels p' = sub_pixels p
               @ map (group_pixels img p)
                   (closed_groups (nchannels (nativespec img)) ci (sub_ch_count p) (recent_sub p) todo)
          \<and> sub_names p' = sub_names p
               @ map (\<lambda>g. PStr (snd (snd (snd g))))
                   (closed_groups (nchannels (nativespec img)) ci (sub_ch_count p) (recent_sub p) todo)"
  using assms
proof (induction todo arbitrary: ci p)
  case Nil
  then show ?case by (simp add: same_options_def)
next
  case (Cons c cs)
  let ?n = "nchannels (nativespec img)"
  show ?case
  proof (cases "(recent_sub p \<noteq> [] \<and> group_key c \<noteq> recent_sub p) \<or> ci + 1 = ?n")
    case False
    from loop_body_keep [OF False] obtain p1 where
      p1: "loop_body img c (ci, p) = Inr (ci + 1, p1)" "same_options p1 p"
          "sub_specs p1 = sub_specs p" "sub_pixels p1 = sub_pixels p" "sub_names p1 = sub_names p"
          "recent_sub p1 = group_key c" "sub_ch_count p1 = sub_ch_count p + 1"
      by blast
    have G: "closed_groups ?n ci (sub_ch_count p) (recent_sub p) (c # cs)
              = closed_groups ?n (ci + 1) (sub_ch_count p1) (recent_sub p1) cs"
      using False p1 by auto
    have "\<forall>g \<in> set (closed_groups ?n (ci + 1) (sub_ch_count p1) (recent_sub p1) cs).
             typedesc_at img (fst g) \<noteq> None"
      using Cons.prems G by simp
    from Cons.IH [OF this] obtain ci' p' where
      r: "channel_loop img cs (ci + 1, p1) = Inr (ci', p')" "same_options p' p1"
         "sub_specs p' = sub_specs p1 @ map (group_spec img p1)
             (closed_groups ?n (ci + 1) (sub_ch_count p1) (recent_sub p1) cs)"
         "sub_pixels p' = sub_pixels p1 @ map (group_pixels img p1)
             (closed_groups ?n (ci + 1) (sub_ch_count p1) (recent_sub p1) cs)"
         "sub_names p' = sub_names p1 @ map (\<lambda>g. PStr (snd (snd (snd g))))
             (closed_groups ?n (ci + 1) (sub_ch_count p1) (recent_sub p1) cs)"
      by blast
    have so: "same_options p' p" using r(2) p1(2) by (simp add: same_options_def)
    have gs: "group_spec img p1 = group_spec img p" "group_pixels img p1 = group_pixels img p"
      using p1(2) by (auto simp: fun_eq_iff intro: group_spec_cong group_pixels_cong)
    show ?thesis
      using p1 r so by (simp add: G gs del: closed_groups.simps)
  next
    case True
    define g where "g = (if ci + 1 = ?n
              then (ci + 1 - (sub_ch_count p + 1), ci + 1 - 1, sub_ch_count p + 1, recent_sub p)
              else (ci - sub_ch_count p, ci - 1, sub_ch_count p, recent_sub p))"
    define ci1 where "ci1 = (if ci + 1 = ?n then ci + 1 + 1 else ci + 1)"
    have G: "closed_groups ?n ci (sub_ch_count p) (recent_sub p) (c # cs)
              = g # closed_groups ?n ci1 1 (group_key c) cs"
      using True by (auto simp: g_def ci1_def)
    have td: "typedesc_at img (fst g) \<noteq> None"
      using Cons.prems G by simp
    from loop_body_close [OF True g_def td] obtain p1 where
      p1: "loop_body img c (ci, p) = Inr (ci1, p1)" "same_options p1 p"
          "sub_specs p1 = sub_specs p @ [group_spec img p g]"
          "sub_pixels p1 = sub_pixels p @ [group_pixels img p g]"
          "sub_names p1 = sub_names p @ [PStr (snd (snd (snd g)))]"
          "recent_sub p1 = group_key c" "sub_ch_count p1 = 1"
      unfolding ci1_def by blast
    have "\<forall>g \<in> set (closed_groups ?n ci1 (sub_ch_count p1) (recent_sub p1) cs).
             typedesc_at img (fst g) \<noteq> None"
      using Cons.prems G p1 by simp
    from Cons.IH [OF this] obtain ci' p' where
      r: "channel_loop img cs (ci1, p1) = Inr (ci', p')" "same_options p' p1"
         "sub_specs p' = sub_specs p1 @ map (group_spec img p1)
             (closed_groups ?n ci1 (sub_ch_count p1) (recent_sub p1) cs)"
         "sub_pixels p' = sub_pixels p1 @ map (group_pixels img p1)
             (closed_groups ?n ci1 (sub_ch_count p1) (recent_sub p1) cs)"
         "sub_names p' = sub_names p1 @ map (\<lambda>g. PStr (snd (snd (snd g))))
             (closed_groups ?n ci1 (sub_ch_count p1) (recent_sub p1) cs)"
      by blast
    have so: "same_options p' p" using r(2) p1(2) by (simp add: same_options_def)
    have gs: "group_spec img p1 = group_spec img p" "group_pixels img p1 = group_pixels img p"
      using p1(2) by (auto simp: fun_eq_iff intro: group_spec_cong group_pixels_cong)
    show ?thesis
      using p1 r so by (simp add: G gs del: closed_groups.simps)
  qed
qed


lemma py_slice_take_drop:
  assumes "0 \<le> a" "a \<le> b" "b \<le> int (length xs)"
  shows "py_slice xs a b = take (nat (b - a)) (drop (nat a) xs)"
  using assms by (simp add: py_slice_def py_bound_def Let_def min_def)

lemma closed_groups_cover:
  assumes "n = ci + int (length todo)" "int (length names) = n"
    and "0 \<le> cnt" "cnt \<le> ci" "todo \<noteq> []"
  shows "concat (map (\<lambda>g. py_slice names (fst g) (fst (snd g) + 1))
            (closed_groups n ci cnt recent todo)) = drop (nat (ci - cnt)) names"
  using assms
proof (induction todo arbitrary: ci cnt recent)
  case Nil
  then show ?case by simp
next
  case (Cons c cs)
  show ?case
  proof (cases "ci + 1 = n")
    case True
    then have cs: "cs = []" using Cons.prems(1) by simp
    have "py_slice names (ci - cnt) (ci + 1) = take (nat (ci + 1 - (ci - cnt))) (drop (nat (ci - cnt)) names)"
      using Cons.prems True by (intro py_slice_take_drop) auto
    also have "\<dots> = drop (nat (ci - cnt)) names"
      using Cons.prems True by (intro take_all) (simp; linarith)
    finally have sl: "py_slice names (ci - cnt) (ci + 1) = drop (nat (ci - cnt)) names" .
    have e: "n - (cnt + 1) = ci - cnt" using True by linarith
    show ?thesis using True cs e sl by simp
  next
    case False
    then have ne: "cs \<noteq> []" using Cons.prems(1) by auto
    have len: "n = (ci + 1) + int (length cs)" using Cons.prems(1) by simp
    show ?thesis
    proof (cases "recent \<noteq> [] \<and> group_key c \<noteq> recent")
      case True
      have ih: "concat (map (\<lambda>g. py_slice names (fst g) (fst (snd g) + 1))
            (closed_groups n (ci + 1) 1 (group_key c) cs)) = drop (nat (ci + 1 - 1)) names"
        using Cons.prems ne by (intro Cons.IH [OF len]) auto
      have "py_slice names (ci - cnt) (ci - 1 + 1) = take (nat (ci - (ci - cnt))) (drop (nat (ci - cnt)) names)"
        using Cons.prems False py_slice_take_drop [of "ci - cnt" ci names] by simp
      then have sl: "py_slice names (ci - cnt) (ci - 1 + 1) = take (nat cnt) (drop (nat (ci - cnt)) names)"
        by simp
      have "take (nat cnt) (drop (nat (ci - cnt)) names) @ drop (nat ci) names
              = take (nat cnt) (drop (nat (ci - cnt)) names) @ drop (nat cnt) (drop (nat (ci - cnt)) names)"
        using Cons.prems by (simp add: nat_add_distrib [symmetric])
      also have "\<dots> = drop (nat (ci - cnt)) names" by (rule append_take_drop_id)
      finally show ?thesis using True False ih sl by simp
    next
      case keep: False
      have "concat (map (\<lambda>g. py_slice names (fst g) (fst (snd g) + 1))
            (closed_groups n (ci + 1) (cnt + 1) (group_key c) cs)) = drop (nat (ci + 1 - (cnt + 1))) names"
        using Cons.prems ne by (intro Cons.IH [OF len]) auto
      then show ?thesis using keep False by auto
    qed
  qed
qed

lemma closed_groups_starts:
  assumes "n = ci + int (length todo)" "0 \<le> cnt" "cnt \<le> ci" "cnt = 0 \<longrightarrow> recent = []"
  shows "(\<forall>g \<in> set (closed_groups n ci cnt recent todo). ci - cnt \<le> fst g \<and> fst g < n)
         \<and> (closed_groups n ci cnt recent todo \<noteq> []
              \<longrightarrow> fst (hd (closed_groups n ci cnt recent todo)) = ci - cnt
                \<and> (\<forall>g \<in> set (tl (closed_groups n ci cnt recent todo)). ci - cnt < fst g))"
  using assms
proof (induction todo arbitrary: ci cnt recent)
  case Nil
  then show ?case by simp
next
  case (Cons c cs)
  show ?case
  proof (cases "ci + 1 = n")
    case True
    then have cs: "cs = []" using Cons.prems(1) by simp
    show ?thesis using True cs Cons.prems by simp
  next
    case False
    have len: "n = (ci + 1) + int (length cs)" using Cons.prems(1) by simp
    show ?thesis
    proof (cases "recent \<noteq> [] \<and> group_key c \<noteq> recent")
      case True
      then have pos: "0 < cnt" using Cons.prems by auto
      have ih: "(\<forall>g \<in> set (closed_groups n (ci + 1) 1 (group_key c) cs). ci + 1 - 1 \<le> fst g \<and> fst g < n)"
        using Cons.prems Cons.IH [OF len, of 1 "group_key c"] by simp
      show ?thesis using True False ih pos Cons.prems by auto
    next
      case keep: False
      have ih: "(\<forall>g \<in> set (closed_groups n (ci + 1) (cnt + 1) (group_key c) cs). ci + 1 - (cnt + 1) \<le> fst g \<and> fst g < n)
         \<and> (closed_groups n (ci + 1) (cnt + 1) (group_key c) cs \<noteq> []
              \<longrightarrow> fst (hd (closed_groups n (ci + 1) (cnt + 1) (group_key c) cs)) = ci + 1 - (cnt + 1)
                \<and> (\<forall>g \<in> set (tl (closed_groups n (ci + 1) (cnt + 1) (group_key c) cs)). ci + 1 - (cnt + 1) < fst g))"
        using Cons.prems by (intro Cons.IH [OF len]) auto
      show ?thesis using keep False ih by auto
    qed
  qed
qed


lemma py_index_in_range: "0 \<le> i \<Longrightarrow> i < int (length xs) \<Longrightarrow> py_index xs i \<noteq> None"
  by (simp add: py_index_def Let_def)

lemma typedesc_at_wf:
  assumes "wf_spec (nativespec img)" "0 \<le> i" "i < nchannels (nativespec img)"
  shows "typedesc_at img i \<noteq> None"
  using assms by (auto simp: typedesc_at_def wf_spec_def py_index_def Let_def)

lemma split_groups_starts:
  assumes "wf_spec (nativespec img)"
  shows "(\<forall>g \<in> set (split_groups img). 0 \<le> fst g \<and> fst g < nchannels (nativespec img))
         \<and> (split_groups img \<noteq> []
              \<longrightarrow> fst (hd (split_groups img)) = 0 \<and> (\<forall>g \<in> set (tl (split_groups img)). 0 < fst g))"
proof -
  have n: "nchannels (nativespec img) = 0 + int (length (channelnames (nativespec img)))"
    using assms by (simp add: wf_spec_def)
  show ?thesis
    using closed_groups_starts [OF n, of 0 "[]"] by (simp add: split_groups_def)
qed

lemma split_groups_cover:
  assumes "wf_spec (nativespec img)"
  shows "concat (map (\<lambda>g. py_slice (channelnames (nativespec img)) (fst g) (fst (snd g) + 1))
            (split_groups img)) = channelnames (nativespec img)"
proof (cases "channelnames (nativespec img) = []")
  case True
  then show ?thesis by (simp add: split_groups_def)
next
  case False
  have n: "nchannels (nativespec img) = int (length (channelnames (nativespec img)))"
    using assms by (simp add: wf_spec_def)
  have "concat (map (\<lambda>g. py_slice (channelnames (nativespec img)) (fst g) (fst (snd g) + 1))
            (closed_groups (nchannels (nativespec img)) 0 0 [] (channelnames (nativespec img))))
          = drop (nat (0 - 0)) (channelnames (nativespec img))"
  proof (rule closed_groups_cover)
    show "nchannels (nativespec img) = 0 + int (length (channelnames (nativespec img)))"
      using n by simp
    show "int (length (channelnames (nativespec img))) = nchannels (nativespec img)"
      using n by simp
    show "channelnames (nativespec img) \<noteq> []" by (rule False)
  qed simp_all
  then show ?thesis by (simp add: split_groups_def)
qed

lemma split_subimages_groups:
  assumes "wf_spec (nativespec img)" "recent_sub p = []" "sub_ch_count p = 0"
    and "sub_specs p = []" "sub_pixels p = []" "sub_names p = []"
    and "q = p\<lparr>roi := (roi p)\<lparr>chend := 4\<rparr>\<rparr>"
  shows "\<exists>p'. split_subimages img p = Inr (Some p') \<and> same_options p' q
          \<and> sub_specs p' = map (group_spec img q) (split_groups img)
          \<and> sub_pixels p' = map (group_pixels img q) (split_groups img)
          \<and> sub_names p' = map (\<lambda>g. PStr (snd (snd (snd g)))) (split_groups img)"
proof -
  have td: "\<forall>g \<in> set (closed_groups (nchannels (nativespec img)) 0 (sub_ch_count q) (recent_sub q)
              (channelnames (nativespec img))). typedesc_at img (fst g) \<noteq> None"
  proof
    fix g
    assume "g \<in> set (closed_groups (nchannels (nativespec img)) 0 (sub_ch_count q) (recent_sub q)
              (channelnames (nativespec img)))"
    then have "g \<in> set (split_groups img)"
      using assms(2,3,7) by (simp add: split_groups_def)
    then have "0 \<le> fst g \<and> fst g < nchannels (nativespec img)"
      using split_groups_starts [OF assms(1)] by blast
    then show "typedesc_at img (fst g) \<noteq> None"
      using typedesc_at_wf [OF assms(1)] by blast
  qed
  from channel_loop_groups [OF td] obtain ci' p' where
    r: "channel_loop img (channelnames (nativespec img)) (0, q) = Inr (ci', p')" "same_options p' q"
       "sub_specs p' = sub_specs q @ map (group_spec img q)
           (closed_groups (nchannels (nativespec img)) 0 (sub_ch_count q) (recent_sub q)
              (channelnames (nativespec img)))"
       "sub_pixels p' = sub_pixels q @ map (group_pixels img q)
           (closed_groups (nchannels (nativespec img)) 0 (sub_ch_count q) (recent_sub q)
              (channelnames (nativespec img)))"
       "sub_names p' = sub_names q @ map (\<lambda>g. PStr (snd (snd (snd g))))
           (closed_groups (nchannels (nativespec img)) 0 (sub_ch_count q) (recent_sub q)
              (channelnames (nativespec img)))"
    by blast
  have q: "sub_ch_count q = 0" "recent_sub q = []" "sub_specs q = []" "sub_pixels q = []" "sub_names q = []"
    using assms by simp_all
  have "split_subimages img p = Inr (Some p')"
    using r(1,3,4) q assms(7) by (simp add: split_subimages_def Let_def)
  then show ?thesis using r q by (auto simp: split_groups_def)
qed

lemma group_spec_channelnames:
  "channelnames (group_spec img q g)
     = (if fix_channels q then map fix_name (py_slice (channelnames (nativespec img)) (fst g) (fst (snd g) + 1))
        else py_slice (channelnames (nativespec img)) (fst g) (fst (snd g) + 1))"
  by (simp add: group_spec_def build_spec_def Let_def with_group_def src_channel_names_def)

lemma group_pixels_names:
  "extracted_names (group_pixels img q g)
     = py_slice (channelnames (nativespec img)) (fst g) (fst (snd g) + 1)"
  by (simp add: group_pixels_def with_group_def src_channel_names_def)


section \<open>Evaluation\<close>

lemmas eval_defs =
  split_subimages_def init_properties_def data_window_def get_roi_def loop_body_def
  new_subimage_def typedesc_at_def build_spec_def set_compression_def src_channel_names_def
  Let_def group_key_def py_slice_def py_bound_def py_index_def new_ImageSpec_def set_roi_def
  copy_metadata_def copy_attrib_def attribute_def attribute_typed_def truthy_def fix_name_def
  black_image_def library_codec_def str_attr_def planned_layers_def

section \<open>Channel grouping\<close>

text \<open>
  C8. A single-channel image should yield one group named by the key of its channel: for
  the channel list \<open>[Y]\<close> the group \<open>Y\<close> over channel 0. The program yields one group
  over channel 0, but names it with \<open>recent_sub\<close>, which is still the empty string when
  the only channel is also the last one; the key of the channel itself is \<open>Y\<close>.
\<close>

theorem single_channel_group_is_unnamed:
  "planned_layers (split_subimages gray_image
      (init_properties library_codec (gray_image, []) False True False False None False))
    = Some ([PStr []], [[''Y'']])
   \<and> group_key ''Y'' = ''Y''"
  by (simp add: eval_defs gray_image_def)

text \<open>
  C2. A channel whose key differs from the key of its predecessor should never share a
  group with it, also when it is the last channel. On the channel list \<open>[R, Z]\<close> the
  keys are \<open>rgba\<close> and \<open>Z\<close>, and the program closes the single group \<open>rgba\<close> over both
  channels: in the last iteration the counter is raised before the range is computed, so
  the last channel always joins the group that is open.
\<close>

theorem last_channel_joins_previous_group:
  "planned_layers (split_subimages rz_image
      (init_properties library_codec (rz_image, []) False True False False None False))
    = Some ([PStr ''rgba''], [[''R'', ''Z'']])
   \<and> group_key ''Z'' \<noteq> group_key ''R''"
  by (simp add: eval_defs rz_image_def)

section \<open>Planning the subimages of a flat image\<close>

lemma init_properties_fields [simp]:
  "recent_sub (init_properties cd src crop mp rm fixch cmpr verb) = []"
  "sub_ch_count (init_properties cd src crop mp rm fixch cmpr verb) = 0"
  "sub_specs (init_properties cd src crop mp rm fixch cmpr verb) = []"
  "sub_pixels (init_properties cd src crop mp rm fixch cmpr verb) = []"
  "sub_names (init_properties cd src crop mp rm fixch cmpr verb) = []"
  "fix_channels (init_properties cd src crop mp rm fixch cmpr verb) = fixch"
  "rm_manifest (init_properties cd src crop mp rm fixch cmpr verb) = rm"
  "multipart (init_properties cd src crop mp rm fixch cmpr verb) = mp"
  "verbose (init_properties cd src crop mp rm fixch cmpr verb) = verb"
  "roi (init_properties cd src crop mp rm fixch cmpr verb) = data_window cd (fst src) crop"
  "compression (init_properties cd src crop mp rm fixch cmpr verb)
     = (if cmpr = Some ''keep'' then None else cmpr)"
  "nsubimages (init_properties cd src crop mp rm fixch cmpr verb) = 1 + int (length (snd src))"
  by (simp_all add: init_properties_def)

lemma split_subimages_init:
  assumes "wf_spec (nativespec img)"
    and "p = init_properties cd (img, rest) crop mp rm fixch cmpr verb"
    and "q = p\<lparr>roi := (roi p)\<lparr>chend := 4\<rparr>\<rparr>"
  shows "\<exists>p'. split_subimages img p = Inr (Some p') \<and> same_options p' q
          \<and> sub_specs p' = map (group_spec img q) (split_groups img)
          \<and> sub_pixels p' = map (group_pixels img q) (split_groups img)
          \<and> sub_names p' = map (\<lambda>g. PStr (snd (snd (snd g)))) (split_groups img)"
  using assms(2) by (intro split_subimages_groups [OF assms(1) _ _ _ _ _ assms(3)]) simp_all

text \<open>
  C10. With \<^verbatim>\<open>fix_channels\<close> set in the split case, every channel whose source name
  contains \<open>depth.z\<close> is written under the name \<open>depth.Z\<close> (whatever surrounds the
  substring is dropped) and every other channel keeps its name; the pixels of every
  subimage are extracted from the source image with the source names, and cut to the
  data window.
\<close>

theorem fix_channels_renames_output_only:
  assumes "wf_spec (nativespec img)"
  shows "\<exists>p'. split_subimages img (init_properties cd (img, []) crop True rm True cmpr verb)
              = Inr (Some p')
          \<and> concat (map channelnames (sub_specs p'))
              = map (\<lambda>n. if py_in ''depth.z'' n then ''depth.Z'' else n)
                  (channelnames (nativespec img))
          \<and> map channelnames (sub_specs p')
              = map (\<lambda>b. map fix_name (extracted_names b)) (sub_pixels p')
          \<and> concat (map extracted_names (sub_pixels p')) = channelnames (nativespec img)
          \<and> sub_pixels p'
              = map (\<lambda>b. Cut (Channels (Loaded img) (extracted_names b))
                             ((data_window cd img crop)\<lparr>chend := 4\<rparr>))
                  (sub_pixels p')"
proof -
  define p where "p = init_properties cd (img, []) crop True rm True cmpr verb"
  define q where "q = p\<lparr>roi := (roi p)\<lparr>chend := 4\<rparr>\<rparr>"
  let ?names = "channelnames (nativespec img)"
  let ?slice = "\<lambda>g. py_slice ?names (fst g) (fst (snd g) + 1)"
  from split_subimages_init [OF assms p_def q_def] obtain p' where
    r: "split_subimages img p = Inr (Some p')"
       "sub_specs p' = map (group_spec img q) (split_groups img)"
       "sub_pixels p' = map (group_pixels img q) (split_groups img)"
    by blast
  have fq: "fix_channels q" by (simp add: q_def p_def)
  have rq: "roi q = (data_window cd img crop)\<lparr>chend := 4\<rparr>" by (simp add: q_def p_def)
  have specs: "map channelnames (sub_specs p') = map (\<lambda>g. map fix_name (?slice g)) (split_groups img)"
    using fq by (simp add: r(2) group_spec_channelnames)
  have bufs: "map extracted_names (sub_pixels p') = map ?slice (split_groups img)"
    by (simp add: r(3) group_pixels_names)
  have c1: "concat (map extracted_names (sub_pixels p')) = ?names"
    using split_groups_cover [OF assms] by (simp only: bufs)
  have "concat (map channelnames (sub_specs p')) = map fix_name (concat (map ?slice (split_groups img)))"
    by (simp add: specs map_concat comp_def)
  then have c2: "concat (map channelnames (sub_specs p')) = map fix_name ?names"
    using split_groups_cover [OF assms] by simp
  have c3: "map channelnames (sub_specs p') = map (\<lambda>b. map fix_name (extracted_names b)) (sub_pixels p')"
    by (simp add: specs r(3) group_pixels_names)
  have c4: "sub_pixels p' = map (\<lambda>b. Cut (Channels (Loaded img) (extracted_names b))
                             ((data_window cd img crop)\<lparr>chend := 4\<rparr>)) (sub_pixels p')"
    by (simp add: r(3) group_pixels_def rq)
  have fn: "fix_name = (\<lambda>n. if py_in ''depth.z'' n then ''depth.Z'' else n)"
    by (simp add: fun_eq_iff fix_name_def)
  show ?thesis
    using r(1) c1 c2 c3 c4 unfolding p_def fn by blast
qed

theorem fix_channels_renames_output_only_witness:
  "wf_spec (nativespec layered_image)
   \<and> (\<exists>p'. split_subimages layered_image
              (init_properties library_codec (layered_image, []) False True False True None False)
            = Inr (Some p')
        \<and> concat (map channelnames (sub_specs p'))
            = [''R'', ''G'', ''B'', ''A'', ''depth.Z'', ''lightgroup.R'', ''lightgroup.G'']
        \<and> concat (map extracted_names (sub_pixels p'))
            = [''R'', ''G'', ''B'', ''A'', ''depth.z'', ''lightgroup.R'', ''lightgroup.G''])"
proof -
  have wf: "wf_spec (nativespec layered_image)"
    by (simp add: wf_spec_def layered_image_def black_image_def)
  have names: "channelnames (nativespec layered_image)
      = [''R'', ''G'', ''B'', ''A'', ''depth.z'', ''lightgroup.R'', ''lightgroup.G'']"
    by (simp add: layered_image_def black_image_def)
  from fix_channels_renames_output_only [OF wf, of library_codec False False None False]
  obtain p' where
    "split_subimages layered_image
        (init_properties library_codec (layered_image, []) False True False True None False)
      = Inr (Some p')"
    "concat (map channelnames (sub_specs p'))
      = map (\<lambda>n. if py_in ''depth.z'' n then ''depth.Z'' else n)
          (channelnames (nativespec layered_image))"
    "concat (map extracted_names (sub_pixels p')) = channelnames (nativespec layered_image)"
    by blast
  then show ?thesis using wf by (simp add: names)
qed






section \<open>The output phase\<close>

lemma erase_attribute_subset: "set (erase_attribute n attrs) \<subseteq> set attrs"
  by (auto simp: erase_attribute_def)

lemma erase_loop_ok:
  "\<forall>a \<in> set attrs. can_erase cd a \<Longrightarrow> \<exists>r. erase_loop cd i attrs = Inr r"
proof (induction cd i attrs rule: erase_loop.induct)
  case (1 cd i attrs)
  show ?case
  proof (cases "i < length attrs")
    case False
    then show ?thesis by (subst erase_loop.simps) simp
  next
    case True
    then have ce: "can_erase cd (attrs ! i)" using "1.prems" by simp
    show ?thesis
    proof (cases "py_in ''manifest'' (pv_name (attrs ! i))")
      case m: True
      have "\<forall>a \<in> set (erase_attribute (pv_name (attrs ! i)) attrs). can_erase cd a"
        using "1.prems" erase_attribute_subset by blast
      from "1.IH"(1) [OF True refl m ce this] show ?thesis
        using True m ce by (subst erase_loop.simps) (simp add: Let_def)
    next
      case m: False
      from "1.IH"(2) [OF True refl m "1.prems"] show ?thesis
        using True m by (subst erase_loop.simps) (simp add: Let_def)
    qed
  qed
qed

lemma update_specs_ok:
  assumes "rm_manifest p \<longrightarrow> (\<forall>a \<in> set (extra_attribs s). can_erase cd a)"
  shows "\<exists>s'. update_specs cd s p = Inr s'"
proof (cases "rm_manifest p")
  case True
  then have "\<forall>a \<in> set (extra_attribs (set_roi (roi p) s)). can_erase cd a"
    using assms by (simp add: set_roi_def)
  from erase_loop_ok [OF this, of 0] obtain r where
    "erase_loop cd 0 (extra_attribs (set_roi (roi p) s)) = Inr r" by blast
  then show ?thesis using True by (simp add: update_specs_def Let_def)
next
  case False
  then show ?thesis by (simp add: update_specs_def Let_def)
qed

lemma update_specs_channelnames:
  "update_specs cd s p = Inr s' \<Longrightarrow> channelnames s' = channelnames s"
  by (auto simp: update_specs_def Let_def set_roi_def split: sum.splits if_splits)

lemma written_specs_parts:
  assumes "create_ok cd" "sub_specs p \<noteq> []"
  shows "written_specs (snd (write_output cd img p)) = sub_specs p"
  using assms by (simp add: write_output_def Let_def)

lemma written_specs_single:
  assumes "create_ok cd" "sub_specs p = []" "update_specs cd (nativespec img) p = Inr s"
  shows "written_specs (snd (write_output cd img p)) = [s]"
  using assms by (simp add: write_output_def Let_def)

section \<open>Channel lists of the written subimages\<close>

text \<open>
  C1, as stated: the channel lists of the produced descriptors, concatenated, are the
  channel list of the source. With \<^verbatim>\<open>fix_channels\<close> set in the split case this fails on
  an image whose channel is named \<open>depth.z\<close>: the descriptor carries \<open>depth.Z\<close>.
\<close>

theorem renamed_channel_differs_from_source:
  "concat (map channelnames (written_specs (snd
      (rewrap library_codec (depth_image, []) False True False True None False))))
    \<noteq> channelnames (nativespec depth_image)"
  by (simp add: rewrap_def write_output_def eval_defs depth_image_def)

text \<open>
  C1, amended: for a flat source, the channel lists of the specs handed to the output,
  concatenated in order, are the channel list of the source with \<open>fix_name\<close> applied to
  every name when the image is split with \<^verbatim>\<open>fix_channels\<close> set, and exactly the channel
  list of the source otherwise; no channel is dropped, duplicated or moved. The
  hypotheses say that the spec is one the library reads from a file, that the output
  object can be created and that no attribute refuses to be erased.
\<close>

theorem written_channels_follow_source:
  assumes "wf_spec (nativespec img)" and "create_ok cd"
    and "rm \<longrightarrow> (\<forall>a \<in> set (extra_attribs (nativespec img)). can_erase cd a)"
  shows "concat (map channelnames (written_specs (snd
            (rewrap cd (img, []) crop mp rm fixch cmpr verb))))
         = (if mp \<and> fixch then map fix_name (channelnames (nativespec img))
            else channelnames (nativespec img))"
proof -
  define p where "p = init_properties cd (img, []) crop mp rm fixch cmpr verb"
  let ?names = "channelnames (nativespec img)"
  let ?slice = "\<lambda>g. py_slice ?names (fst g) (fst (snd g) + 1)"
  show ?thesis
  proof (cases mp)
    case False
    have rw: "rewrap cd (img, []) crop mp rm fixch cmpr verb = write_output cd img p"
      using False by (simp add: rewrap_def Let_def p_def)
    have "rm_manifest p \<longrightarrow> (\<forall>a \<in> set (extra_attribs (nativespec img)). can_erase cd a)"
      using assms(3) by (simp add: p_def)
    from update_specs_ok [OF this] obtain s where s: "update_specs cd (nativespec img) p = Inr s"
      by blast
    have "written_specs (snd (write_output cd img p)) = [s]"
      using assms(2) s by (intro written_specs_single) (simp_all add: p_def)
    then show ?thesis
      unfolding rw using False update_specs_channelnames [OF s] by simp
  next
    case True
    define q where "q = p\<lparr>roi := (roi p)\<lparr>chend := 4\<rparr>\<rparr>"
    from split_subimages_init [OF assms(1) p_def q_def] obtain p' where
      r: "split_subimages img p = Inr (Some p')" "same_options p' q"
         "sub_specs p' = map (group_spec img q) (split_groups img)"
      by blast
    have rw: "rewrap cd (img, []) crop mp rm fixch cmpr verb = write_output cd img p'"
      using True r(1) by (simp add: rewrap_def Let_def p_def [symmetric]) (simp add: p_def)
    have fq: "fix_channels q = fixch" by (simp add: q_def p_def)
    have cover: "concat (map ?slice (split_groups img)) = ?names"
      by (rule split_groups_cover [OF assms(1)])
    show ?thesis
    proof (cases "split_groups img = []")
      case e: True
      then have names: "?names = []" using cover by simp
      have "rm_manifest p' = rm" using r(2) by (simp add: same_options_def q_def p_def)
      then have "rm_manifest p' \<longrightarrow> (\<forall>a \<in> set (extra_attribs (nativespec img)). can_erase cd a)"
        using assms(3) by simp
      from update_specs_ok [OF this] obtain s where s: "update_specs cd (nativespec img) p' = Inr s"
        by blast
      have "written_specs (snd (write_output cd img p')) = [s]"
        using assms(2) s e by (intro written_specs_single) (simp_all add: r(3))
      then show ?thesis
        unfolding rw using update_specs_channelnames [OF s] names by simp
    next
      case ne: False
      have w: "written_specs (snd (write_output cd img p')) = sub_specs p'"
        using assms(2) ne by (intro written_specs_parts) (simp_all add: r(3))
      show ?thesis
      proof (cases fixch)
        case f: True
        have "concat (map channelnames (sub_specs p'))
                = map fix_name (concat (map ?slice (split_groups img)))"
          using f fq by (simp add: r(3) group_spec_channelnames map_concat comp_def)
        then show ?thesis unfolding rw w using True f cover by simp
      next
        case f: False
        have "concat (map channelnames (sub_specs p')) = concat (map ?slice (split_groups img))"
          using f fq by (simp add: r(3) group_spec_channelnames comp_def)
        then show ?thesis unfolding rw w using f cover by simp
      qed
    qed
  qed
qed

theorem written_channels_follow_source_witness:
  "wf_spec (nativespec layered_image) \<and> create_ok library_codec
   \<and> concat (map channelnames (written_specs (snd
        (rewrap library_codec (layered_image, []) False True True True None False))))
      = [''R'', ''G'', ''B'', ''A'', ''depth.Z'', ''lightgroup.R'', ''lightgroup.G'']
   \<and> concat (map channelnames (written_specs (snd
        (rewrap library_codec (layered_image, []) False False True True None False))))
      = [''R'', ''G'', ''B'', ''A'', ''depth.z'', ''lightgroup.R'', ''lightgroup.G'']"
proof -
  have wf: "wf_spec (nativespec layered_image)"
    by (simp add: wf_spec_def layered_image_def black_image_def)
  have c: "create_ok library_codec" by (simp add: library_codec_def)
  have e: "True \<longrightarrow> (\<forall>a \<in> set (extra_attribs (nativespec layered_image)). can_erase library_codec a)"
    by (simp add: library_codec_def)
  have names: "channelnames (nativespec layered_image)
      = [''R'', ''G'', ''B'', ''A'', ''depth.z'', ''lightgroup.R'', ''lightgroup.G'']"
    by (simp add: layered_image_def black_image_def)
  show ?thesis
    using written_channels_follow_source [OF wf c e, of False True True None False]
      written_channels_follow_source [OF wf c e, of False False True None False] wf c
    by (simp add: names fix_name_def)
qed

section \<open>Failures while writing\<close>

text \<open>When the first \<^verbatim>\<open>open\<close> fails, \<^verbatim>\<open>rewrap\<close> does not return \<^verbatim>\<open>True\<close> and writes
  nothing.\<close>

lemma write_output_open_fails:
  "create_ok cd \<Longrightarrow> \<not> open_ok cd \<Longrightarrow>
     fst (write_output cd img p) \<noteq> Inr True \<and> written_pixels (snd (write_output cd img p)) = []"
  by (simp add: write_output_def split: sum.splits)

text \<open>
  C3. \<^verbatim>\<open>rewrap\<close> should return \<^verbatim>\<open>True\<close> only if every descriptor was written without
  error, and no error from writing pixels should be ignored. The program checks the
  result of every \<^verbatim>\<open>open\<close> but drops the result of \<^verbatim>\<open>write_image\<close>: with a library
  whose \<^verbatim>\<open>write_image\<close> fails, the single part of a flat image is handed to
  \<^verbatim>\<open>write_image\<close> and \<^verbatim>\<open>rewrap\<close> returns \<^verbatim>\<open>True\<close>.
\<close>

theorem failed_write_still_returns_true:
  "fst (rewrap codec_write_fails (red_image, []) False False False False None False) = Inr True
   \<and> \<not> write_ok codec_write_fails 0
   \<and> written_pixels (snd (rewrap codec_write_fails (red_image, []) False False False False None False))
       = [Cut (Loaded red_image) (get_roi (nativespec red_image))]"
  by (simp add: rewrap_def write_output_def update_specs_def init_properties_def data_window_def
      codec_write_fails_def library_codec_def truthy_def Let_def)

section \<open>Manifest removal\<close>

text \<open>
  C7. With \<^verbatim>\<open>rm_manifest\<close> set, exactly the attributes whose name contains \<open>manifest\<close>
  should be dropped. In \<^verbatim>\<open>update_specs\<close> the loop erases from the list it walks: after
  erasing the first of two neighbouring manifest attributes the second one has moved
  into the position just visited and is never looked at. It is written to the output.
\<close>

theorem adjacent_manifest_survives:
  "map (\<lambda>s. map pv_name (extra_attribs s))
     (written_specs (snd (rewrap library_codec (manifest_image, []) False False True False None False)))
    = [[''cryptomatte/b/manifest'', ''owner'']]
   \<and> py_in ''manifest'' ''cryptomatte/b/manifest''"
  by (simp add: rewrap_def write_output_def update_specs_def init_properties_def data_window_def
      library_codec_def truthy_def Let_def manifest_image_def black_image_def str_attr_def
      set_roi_def erase_loop.simps erase_attribute_def)

text \<open>
  C9, as stated: a manifest attribute that cannot be erased is a warning, and \<^verbatim>\<open>rewrap\<close>
  completes its normal control flow. With a library that refuses to erase, \<^verbatim>\<open>rewrap\<close>
  ends with the exception \<^verbatim>\<open>RuntimeWarning\<close> after creating the output object, and
  neither opens nor writes.
\<close>

theorem unerasable_manifest_raises:
  "rewrap codec_no_erase (manifest_image, []) False False True False None False
     = (Inl RuntimeWarning, [Create])"
  by (simp add: rewrap_def write_output_def update_specs_def init_properties_def data_window_def
      codec_no_erase_def library_codec_def truthy_def Let_def manifest_image_def black_image_def
      str_attr_def set_roi_def erase_loop.simps erase_attribute_def)

lemma erase_loop_error: "erase_loop cd i attrs = Inl e \<Longrightarrow> e = RuntimeWarning"
proof (induction cd i attrs rule: erase_loop.induct)
  case (1 cd i attrs)
  show ?case
  proof (cases "i < length attrs")
    case False
    then show ?thesis using "1.prems" by (subst (asm) erase_loop.simps) simp
  next
    case lt: True
    show ?thesis
    proof (cases "py_in ''manifest'' (pv_name (attrs ! i))")
      case m: True
      show ?thesis
      proof (cases "can_erase cd (attrs ! i)")
        case True
        have "erase_loop cd (i + 1) (erase_attribute (pv_name (attrs ! i)) attrs) = Inl e"
          using "1.prems" lt m True by (subst (asm) erase_loop.simps) (simp add: Let_def)
        from "1.IH"(1) [OF lt refl m True this] show ?thesis .
      next
        case False
        then show ?thesis
          using "1.prems" lt m by (subst (asm) erase_loop.simps) (simp add: Let_def)
      qed
    next
      case m: False
      have "erase_loop cd (i + 1) attrs = Inl e"
        using "1.prems" lt m by (subst (asm) erase_loop.simps) (simp add: Let_def)
      from "1.IH"(2) [OF lt refl m this] show ?thesis .
    qed
  qed
qed

lemma erase_loop_raises:
  "\<exists>a \<in> set (erase_attempts cd i attrs). \<not> can_erase cd a
     \<Longrightarrow> erase_loop cd i attrs = Inl RuntimeWarning"
proof (induction cd i attrs rule: erase_loop.induct)
  case (1 cd i attrs)
  have lt: "i < length attrs"
  proof (rule ccontr)
    assume "\<not> i < length attrs"
    then have "erase_attempts cd i attrs = []" by (subst erase_attempts.simps) simp
    then show False using "1.prems" by simp
  qed
  show ?case
  proof (cases "py_in ''manifest'' (pv_name (attrs ! i))")
    case m: True
    show ?thesis
    proof (cases "can_erase cd (attrs ! i)")
      case True
      have "erase_attempts cd i attrs
              = attrs ! i # erase_attempts cd (i + 1) (erase_attribute (pv_name (attrs ! i)) attrs)"
        using lt m True by (subst erase_attempts.simps) (simp add: Let_def)
      then have "\<exists>a \<in> set (erase_attempts cd (i + 1) (erase_attribute (pv_name (attrs ! i)) attrs)).
                   \<not> can_erase cd a"
        using "1.prems" True by auto
      from "1.IH"(1) [OF lt refl m True this] show ?thesis
        using lt m True by (subst erase_loop.simps) (simp add: Let_def)
    next
      case False
      then show ?thesis using lt m by (subst erase_loop.simps) (simp add: Let_def)
    qed
  next
    case m: False
    have "erase_attempts cd i attrs = erase_attempts cd (i + 1) attrs"
      using lt m by (subst erase_attempts.simps) (simp add: Let_def)
    then have "\<exists>a \<in> set (erase_attempts cd (i + 1) attrs). \<not> can_erase cd a"
      using "1.prems" by simp
    from "1.IH"(2) [OF lt refl m this] show ?thesis
      using lt m by (subst erase_loop.simps) (simp add: Let_def)
  qed
qed

lemma erase_attempts_manifest:
  "a \<in> set (erase_attempts cd i attrs) \<Longrightarrow> a \<in> set attrs \<and> py_in ''manifest'' (pv_name a)"
proof (induction cd i attrs rule: erase_attempts.induct)
  case (1 cd i attrs)
  have lt: "i < length attrs"
  proof (rule ccontr)
    assume "\<not> i < length attrs"
    then have "erase_attempts cd i attrs = []" by (subst erase_attempts.simps) simp
    then show False using "1.prems" by simp
  qed
  show ?case
  proof (cases "py_in ''manifest'' (pv_name (attrs ! i))")
    case m: True
    show ?thesis
    proof (cases "can_erase cd (attrs ! i)")
      case True
      have "erase_attempts cd i attrs
              = attrs ! i # erase_attempts cd (i + 1) (erase_attribute (pv_name (attrs ! i)) attrs)"
        using lt m True by (subst erase_attempts.simps) (simp add: Let_def)
      then consider "a = attrs ! i"
        | "a \<in> set (erase_attempts cd (i + 1) (erase_attribute (pv_name (attrs ! i)) attrs))"
        using "1.prems" by auto
      then show ?thesis
      proof cases
        case 1
        then show ?thesis using lt m by simp
      next
        case 2
        from "1.IH"(1) [OF lt refl m True 2] show ?thesis
          using erase_attribute_subset by blast
      qed
    next
      case False
      then have "erase_attempts cd i attrs = [attrs ! i]"
        using lt m by (subst erase_attempts.simps) (simp add: Let_def)
      then show ?thesis using "1.prems" lt m by simp
    qed
  next
    case m: False
    have "erase_attempts cd i attrs = erase_attempts cd (i + 1) attrs"
      using lt m by (subst erase_attempts.simps) (simp add: Let_def)
    then have "a \<in> set (erase_attempts cd (i + 1) attrs)" using "1.prems" by simp
    from "1.IH"(2) [OF lt refl m this] show ?thesis .
  qed
qed

lemma erase_loop_raises_only_on_refusal:
  "erase_loop cd i attrs = Inl e \<Longrightarrow> \<exists>a \<in> set (erase_attempts cd i attrs). \<not> can_erase cd a"
proof (induction cd i attrs rule: erase_loop.induct)
  case (1 cd i attrs)
  have lt: "i < length attrs"
  proof (rule ccontr)
    assume "\<not> i < length attrs"
    then have "erase_loop cd i attrs = Inr attrs" by (subst erase_loop.simps) simp
    then show False using "1.prems" by simp
  qed
  show ?case
  proof (cases "py_in ''manifest'' (pv_name (attrs ! i))")
    case m: True
    show ?thesis
    proof (cases "can_erase cd (attrs ! i)")
      case True
      have "erase_loop cd (i + 1) (erase_attribute (pv_name (attrs ! i)) attrs) = Inl e"
        using "1.prems" lt m True by (subst (asm) erase_loop.simps) (simp add: Let_def)
      from "1.IH"(1) [OF lt refl m True this] show ?thesis
        using lt m True by (subst erase_attempts.simps) (simp add: Let_def)
    next
      case False
      then show ?thesis using lt m by (subst erase_attempts.simps) (simp add: Let_def)
    qed
  next
    case m: False
    have "erase_loop cd (i + 1) attrs = Inl e"
      using "1.prems" lt m by (subst (asm) erase_loop.simps) (simp add: Let_def)
    from "1.IH"(2) [OF lt refl m this] show ?thesis
      using lt m by (subst erase_attempts.simps) (simp add: Let_def)
  qed
qed

lemma update_specs_error: "update_specs cd s p = Inl e \<Longrightarrow> e = RuntimeWarning"
  by (auto simp: update_specs_def Let_def split: sum.splits if_splits dest: erase_loop_error)

lemma update_specs_raises:
  assumes "rm_manifest p"
    and "\<exists>a \<in> set (erase_attempts cd 0 (extra_attribs s)). \<not> can_erase cd a"
  shows "update_specs cd s p = Inl RuntimeWarning"
  using assms(1) erase_loop_raises [OF assms(2)]
  by (simp add: update_specs_def Let_def set_roi_def)

lemma subimage_loop_raises:
  assumes "rm_manifest p"
    and "\<exists>im \<in> set ims. \<exists>a \<in> set (erase_attempts cd 0 (extra_attribs (nativespec im))).
           \<not> can_erase cd a"
  shows "subimage_loop cd ims p = Inl RuntimeWarning"
  using assms
proof (induction ims arbitrary: p)
  case Nil
  then show ?case by simp
next
  case (Cons im ims)
  show ?case
  proof (cases "update_specs cd (nativespec im) p")
    case (Inl e)
    then show ?thesis using update_specs_error [OF Inl] by simp
  next
    case (Inr s)
    define p1 where "p1 = p\<lparr>sub_specs := sub_specs p @ [s],
               sub_pixels := sub_pixels p @ [Cut (Loaded im) (roi p)],
               sub_names := sub_names p
                  @ [getattribute (extra_attribs (nativespec im)) ''name'']\<rparr>"
    have "\<not> (\<exists>a \<in> set (erase_attempts cd 0 (extra_attribs (nativespec im))). \<not> can_erase cd a)"
      using update_specs_raises [OF Cons.prems(1), of cd "nativespec im"] Inr by auto
    then have rest: "\<exists>im \<in> set ims. \<exists>a \<in> set (erase_attempts cd 0 (extra_attribs (nativespec im))).
           \<not> can_erase cd a"
      using Cons.prems(2) by auto
    have "rm_manifest p1" using Cons.prems(1) by (simp add: p1_def)
    from Cons.IH [OF this rest] show ?thesis using Inr by (simp add: p1_def)
  qed
qed

text \<open>
  C9, amended: when \<^verbatim>\<open>rm_manifest\<close> is set and \<^verbatim>\<open>update_specs\<close> is reached (the source
  is multi-part, or it is flat and not split, or it is flat without channels), and for
  some subimage the removal loop calls \<^verbatim>\<open>erase_attribute\<close> on an attribute the library
  cannot erase, the \<^verbatim>\<open>TypeError\<close> is re-raised as \<^verbatim>\<open>RuntimeWarning\<close> and leaves
  \<^verbatim>\<open>rewrap\<close> unhandled: the call ends with that exception, and nothing was opened or
  written. This holds whether or not the output object could be created.
\<close>

theorem unerasable_manifest_aborts_rewrap:
  assumes "\<not> mp \<or> rest \<noteq> [] \<or> channelnames (nativespec img) = []"
    and "\<exists>im \<in> set (img # rest).
           \<exists>a \<in> set (erase_attempts cd 0 (extra_attribs (nativespec im))). \<not> can_erase cd a"
  shows "rewrap cd (img, rest) crop mp True fixch cmpr verb
           = (Inl RuntimeWarning, if rest = [] then [Create] else [])"
proof -
  define p where "p = init_properties cd (img, rest) crop mp True fixch cmpr verb"
  have rm: "rm_manifest p" by (simp add: p_def)
  show ?thesis
  proof (cases "rest = []")
    case True
    then have hit: "\<exists>a \<in> set (erase_attempts cd 0 (extra_attribs (nativespec img))). \<not> can_erase cd a"
      using assms(2) by simp
    show ?thesis
    proof (cases mp)
      case False
      have u: "update_specs cd (nativespec img) p = Inl RuntimeWarning"
        by (rule update_specs_raises [OF rm hit])
      have "rewrap cd (img, rest) crop mp True fixch cmpr verb = write_output cd img p"
        using True False by (simp add: rewrap_def Let_def p_def)
      moreover have "write_output cd img p = (Inl RuntimeWarning, [Create])"
        using u by (simp add: write_output_def p_def)
      ultimately show ?thesis using True by simp
    next
      case mp: True
      then have names: "channelnames (nativespec img) = []" using assms(1) True by simp
      define q where "q = p\<lparr>roi := (roi p)\<lparr>chend := 4\<rparr>\<rparr>"
      have sp: "split_subimages img p = Inr (Some q)"
        using names by (simp add: split_subimages_def Let_def q_def p_def)
      have "rm_manifest q" by (simp add: q_def p_def)
      then have u: "update_specs cd (nativespec img) q = Inl RuntimeWarning"
        using hit by (rule update_specs_raises)
      have "rewrap cd (img, rest) crop mp True fixch cmpr verb = write_output cd img q"
        using True mp sp by (simp add: rewrap_def Let_def p_def [symmetric]) (simp add: p_def)
      moreover have "write_output cd img q = (Inl RuntimeWarning, [Create])"
        using u by (simp add: write_output_def q_def p_def)
      ultimately show ?thesis using True by simp
    qed
  next
    case False
    have "subimage_loop cd (img # rest) p = Inl RuntimeWarning"
      by (rule subimage_loop_raises [OF rm assms(2)])
    then have "rewrap cd (img, rest) crop mp True fixch cmpr verb = (Inl RuntimeWarning, [])"
      using False
      by (simp add: rewrap_def Let_def p_def [symmetric] del: subimage_loop.simps)
         (simp add: p_def)
    then show ?thesis using False by simp
  qed
qed

theorem unerasable_manifest_aborts_rewrap_witness:
  "erase_attempts codec_no_erase 0 (extra_attribs (nativespec manifest_image))
     = [str_attr ''cryptomatte/a/manifest'' ''{}'']
   \<and> \<not> can_erase codec_no_erase (str_attr ''cryptomatte/a/manifest'' ''{}'')
   \<and> rewrap codec_no_erase (manifest_image, []) True False True True None False
       = (Inl RuntimeWarning, [Create])
   \<and> rewrap (codec_no_erase\<lparr>create_ok := False\<rparr>) (manifest_image, []) True False True True None False
       = (Inl RuntimeWarning, [Create])
   \<and> rewrap codec_no_erase late_manifest_file True True True True None False
       = (Inl RuntimeWarning, [])"
proof -
  have att: "erase_attempts cd 0 (extra_attribs (nativespec manifest_image))
     = [str_attr ''cryptomatte/a/manifest'' ''{}'']" if "\<not> can_erase cd (str_attr ''cryptomatte/a/manifest'' ''{}'')" for cd
    using that
    by (subst erase_attempts.simps)
       (simp add: manifest_image_def black_image_def str_attr_def Let_def)
  have n: "\<not> can_erase codec_no_erase (str_attr ''cryptomatte/a/manifest'' ''{}'')"
          "\<not> can_erase (codec_no_erase\<lparr>create_ok := False\<rparr>) (str_attr ''cryptomatte/a/manifest'' ''{}'')"
    by (simp_all add: codec_no_erase_def)
  have m1: "\<not> False \<or> ([] :: ImageBuf list) \<noteq> [] \<or> channelnames (nativespec manifest_image) = []"
    by simp
  have m2: "\<not> True \<or> [manifest_image] \<noteq> [] \<or> channelnames (nativespec small_part) = []"
    by simp
  have h1: "\<exists>im \<in> set (manifest_image # []).
           \<exists>a \<in> set (erase_attempts codec_no_erase 0 (extra_attribs (nativespec im))).
             \<not> can_erase codec_no_erase a"
    using n(1) by (simp add: att)
  have h1': "\<exists>im \<in> set (manifest_image # []).
           \<exists>a \<in> set (erase_attempts (codec_no_erase\<lparr>create_ok := False\<rparr>) 0
                        (extra_attribs (nativespec im))).
             \<not> can_erase (codec_no_erase\<lparr>create_ok := False\<rparr>) a"
    using n(2) by (simp add: att)
  have h2: "\<exists>im \<in> set (small_part # [manifest_image]).
           \<exists>a \<in> set (erase_attempts codec_no_erase 0 (extra_attribs (nativespec im))).
             \<not> can_erase codec_no_erase a"
    using n(1) by (simp add: att)
  show ?thesis
    using unerasable_manifest_aborts_rewrap [OF m1 h1, of True True None False]
      unerasable_manifest_aborts_rewrap [OF m1 h1', of True True None False]
      unerasable_manifest_aborts_rewrap [OF m2 h2, of True True None False]
      n(1) att [OF n(1)]
    by (simp add: late_manifest_file_def)
qed

section \<open>Sources that are multi-part already\<close>

text \<open>
  C6, as stated: for every subimage of a multi-part source the crop region is computed
  again, from the native region of that subimage. On a file whose two subimages have
  the windows 2 x 2 and 4 x 4, without autocrop, the second subimage is cut to the
  native region of the first one, which is not its own.
\<close>

theorem second_part_cut_to_first_region:
  "written_pixels (snd (rewrap library_codec two_part_file False True False False None False))
     = [Cut (Loaded small_part) (get_roi (nativespec small_part)),
        Cut (Loaded large_part) (get_roi (nativespec small_part))]
   \<and> get_roi (nativespec small_part) \<noteq> data_window library_codec large_part False"
  by (simp add: rewrap_def write_output_def update_specs_def init_properties_def data_window_def
      library_codec_def truthy_def Let_def two_part_file_def py_index_def get_roi_def
      small_part_def large_part_def black_image_def)

lemma update_specs_window:
  "update_specs cd s p = Inr s' \<Longrightarrow>
     spec_window s' = roi_window (roi p) \<and> channelnames s' = channelnames s"
  by (auto simp: update_specs_def Let_def set_roi_def spec_window_def roi_window_def
      split: sum.splits if_splits)

lemma getattribute_set_attr: "m \<noteq> n \<Longrightarrow> getattribute (set_attr m t v as) n = getattribute as n"
  by (induction as) auto

lemma getattribute_attribute: "m \<noteq> n \<Longrightarrow> getattribute (attribute m v as) n = getattribute as n"
  by (simp add: attribute_def getattribute_set_attr split: pyval.splits)

lemma getattribute_erase: "m \<noteq> n \<Longrightarrow> getattribute (erase_attribute m as) n = getattribute as n"
  by (induction as) (auto simp: erase_attribute_def)

lemma erase_loop_getattribute:
  "erase_loop cd i attrs = Inr r \<Longrightarrow> \<not> py_in ''manifest'' n
     \<Longrightarrow> getattribute r n = getattribute attrs n"
proof (induction cd i attrs rule: erase_loop.induct)
  case (1 cd i attrs)
  show ?case
  proof (cases "i < length attrs")
    case False
    then show ?thesis using "1.prems"(1) by (subst (asm) erase_loop.simps) simp
  next
    case lt: True
    show ?thesis
    proof (cases "py_in ''manifest'' (pv_name (attrs ! i))")
      case m: True
      then have ne: "pv_name (attrs ! i) \<noteq> n" using "1.prems"(2) by auto
      have ce: "can_erase cd (attrs ! i)"
        using "1.prems"(1) lt m by (subst (asm) erase_loop.simps) (auto simp: Let_def split: if_splits)
      have "erase_loop cd (i + 1) (erase_attribute (pv_name (attrs ! i)) attrs) = Inr r"
        using "1.prems"(1) lt m ce by (subst (asm) erase_loop.simps) (simp add: Let_def)
      from "1.IH"(1) [OF lt refl m ce this "1.prems"(2)] show ?thesis
        by (simp add: getattribute_erase [OF ne])
    next
      case m: False
      have "erase_loop cd (i + 1) attrs = Inr r"
        using "1.prems"(1) lt m by (subst (asm) erase_loop.simps) (simp add: Let_def)
      from "1.IH"(2) [OF lt refl m this "1.prems"(2)] show ?thesis .
    qed
  qed
qed

lemma update_specs_name:
  assumes "update_specs cd s p = Inr s'"
  shows "getattribute (extra_attribs s') ''name'' = getattribute (extra_attribs s) ''name''"
proof -
  have nm: "\<not> py_in ''manifest'' ''name''" by simp
  have cn: "''Compression'' \<noteq> ''name''" by simp
  from assms obtain attrs where
    a: "(if rm_manifest p then erase_loop cd 0 (extra_attribs s) else Inr (extra_attribs s))
          = Inr attrs"
    and s': "extra_attribs s'
          = (if truthy (compression p)
             then attribute ''Compression'' (PStr (strip_quote (the (compression p)))) attrs
             else attrs)"
    by (cases "rm_manifest p"; cases "truthy (compression p)")
       (auto simp: update_specs_def Let_def set_roi_def split: sum.splits)
  have "getattribute attrs ''name'' = getattribute (extra_attribs s) ''name''"
  proof (cases "rm_manifest p")
    case True
    then have "erase_loop cd 0 (extra_attribs s) = Inr attrs" using a by simp
    then show ?thesis using nm by (rule erase_loop_getattribute)
  next
    case False
    then show ?thesis using a by simp
  qed
  then show ?thesis using s' getattribute_attribute [OF cn] by simp
qed

lemma subimage_loop_plan:
  assumes "rm_manifest p \<longrightarrow>
             (\<forall>im \<in> set ims. \<forall>a \<in> set (extra_attribs (nativespec im)). can_erase cd a)"
  shows "\<exists>p'. subimage_loop cd ims p = Inr p' \<and> verbose p' = verbose p
          \<and> sub_pixels p' = sub_pixels p @ map (\<lambda>im. Cut (Loaded im) (roi p)) ims
          \<and> sub_names p' = sub_names p
               @ map (\<lambda>im. getattribute (extra_attribs (nativespec im)) ''name'') ims
          \<and> map (\<lambda>s. getattribute (extra_attribs s) ''name'') (sub_specs p')
               = map (\<lambda>s. getattribute (extra_attribs s) ''name'') (sub_specs p)
                 @ map (\<lambda>im. getattribute (extra_attribs (nativespec im)) ''name'') ims
          \<and> map spec_window (sub_specs p')
               = map spec_window (sub_specs p) @ replicate (length ims) (roi_window (roi p))
          \<and> map channelnames (sub_specs p')
               = map channelnames (sub_specs p) @ map (\<lambda>im. channelnames (nativespec im)) ims"
  using assms
proof (induction ims arbitrary: p)
  case Nil
  then show ?case by simp
next
  case (Cons im ims)
  have "rm_manifest p \<longrightarrow> (\<forall>a \<in> set (extra_attribs (nativespec im)). can_erase cd a)"
    using Cons.prems by simp
  from update_specs_ok [OF this] obtain s where s: "update_specs cd (nativespec im) p = Inr s"
    by blast
  define p1 where "p1 = p\<lparr>sub_specs := sub_specs p @ [s],
               sub_pixels := sub_pixels p @ [Cut (Loaded im) (roi p)],
               sub_names := sub_names p
                  @ [getattribute (extra_attribs (nativespec im)) ''name'']\<rparr>"
  have step: "subimage_loop cd (im # ims) p = subimage_loop cd ims p1"
    using s by (simp add: p1_def)
  have "rm_manifest p1 \<longrightarrow>
          (\<forall>im \<in> set ims. \<forall>a \<in> set (extra_attribs (nativespec im)). can_erase cd a)"
    using Cons.prems by (simp add: p1_def)
  from Cons.IH [OF this] obtain p' where
    r: "subimage_loop cd ims p1 = Inr p'" "verbose p' = verbose p1"
       "sub_pixels p' = sub_pixels p1 @ map (\<lambda>im. Cut (Loaded im) (roi p1)) ims"
       "sub_names p' = sub_names p1
               @ map (\<lambda>im. getattribute (extra_attribs (nativespec im)) ''name'') ims"
       "map (\<lambda>s. getattribute (extra_attribs s) ''name'') (sub_specs p')
               = map (\<lambda>s. getattribute (extra_attribs s) ''name'') (sub_specs p1)
                 @ map (\<lambda>im. getattribute (extra_attribs (nativespec im)) ''name'') ims"
       "map spec_window (sub_specs p')
               = map spec_window (sub_specs p1) @ replicate (length ims) (roi_window (roi p1))"
       "map channelnames (sub_specs p')
               = map channelnames (sub_specs p1) @ map (\<lambda>im. channelnames (nativespec im)) ims"
    by blast
  have w: "spec_window s = roi_window (roi p)" "channelnames s = channelnames (nativespec im)"
    using update_specs_window [OF s] by simp_all
  have nm: "getattribute (extra_attribs s) ''name''
              = getattribute (extra_attribs (nativespec im)) ''name''"
    by (rule update_specs_name [OF s])
  show ?case
    unfolding step using r w nm by (intro exI [of _ p']) (simp add: p1_def)
qed

lemma written_pixels_append: "written_pixels (xs @ ys) = written_pixels xs @ written_pixels ys"
  by (induction xs rule: written_pixels.induct) simp_all

lemma write_parts_all:
  assumes "\<forall>i. append_ok cd i" and "i + length pxs \<le> length (sub_specs p)"
    and "verbose p \<longrightarrow> i + length pxs \<le> length (sub_names p)"
  shows "fst (write_parts cd p i pxs) = Inr True
         \<and> written_pixels (snd (write_parts cd p i pxs)) = pxs"
  using assms
proof (induction pxs arbitrary: i)
  case Nil
  then show ?case by simp
next
  case (Cons px pxs)
  have ih: "fst (write_parts cd p (i + 1) pxs) = Inr True
         \<and> written_pixels (snd (write_parts cd p (i + 1) pxs)) = pxs"
    using Cons.prems by (intro Cons.IH) simp_all
  have v: "\<not> (verbose p \<and> py_index (sub_names p) (int i) = None)"
    using Cons.prems(3) by (auto simp: py_index_def Let_def)
  have "py_index (sub_specs p) (int i) = Some (sub_specs p ! i)"
    using Cons.prems(2) by (simp add: py_index_def Let_def)
  then show ?case using ih v Cons.prems(1) by (auto simp add: Let_def)
qed

text \<open>
  C6, amended: for a source with more than one subimage the planner visits every
  subimage in order and gives each of them the one region that was computed before the
  loop from subimage 0 (its native region, or what \<^verbatim>\<open>nonzero_region\<close> returns for it
  with autocrop). The specs handed to the output are as many as the source has
  subimages, each carries the \<open>name\<close> attribute and the channel list of its source
  subimage and the window of that one region, whatever \<^verbatim>\<open>multipart\<close> is; and when
  every \<^verbatim>\<open>open\<close> succeeds the pixel buffers written are the source subimages, in order,
  each cut to that region. The hypotheses say that the output object can be created
  and that no attribute refuses to be erased.
\<close>

theorem multipart_source_shares_one_region:
  assumes "rest \<noteq> []" and "create_ok cd"
    and "rm \<longrightarrow> (\<forall>im \<in> set (img # rest). \<forall>a \<in> set (extra_attribs (nativespec im)).
                    can_erase cd a)"
  shows "length (written_specs (snd (rewrap cd (img, rest) crop mp rm fixch cmpr verb)))
           = length (img # rest)
         \<and> map (\<lambda>s. getattribute (extra_attribs s) ''name'')
               (written_specs (snd (rewrap cd (img, rest) crop mp rm fixch cmpr verb)))
             = map (\<lambda>im. getattribute (extra_attribs (nativespec im)) ''name'') (img # rest)
         \<and> map channelnames
               (written_specs (snd (rewrap cd (img, rest) crop mp rm fixch cmpr verb)))
             = map (\<lambda>im. channelnames (nativespec im)) (img # rest)
         \<and> map spec_window
               (written_specs (snd (rewrap cd (img, rest) crop mp rm fixch cmpr verb)))
             = replicate (length (img # rest)) (roi_window (data_window cd img crop))
         \<and> (open_ok cd \<and> (\<forall>i. append_ok cd i)
              \<longrightarrow> fst (rewrap cd (img, rest) crop mp rm fixch cmpr verb) = Inr True
                \<and> written_pixels (snd (rewrap cd (img, rest) crop mp rm fixch cmpr verb))
                    = map (\<lambda>im. Cut (Loaded im) (data_window cd img crop)) (img # rest))"
proof -
  define p where "p = init_properties cd (img, rest) crop mp rm fixch cmpr verb"
  have "rm_manifest p \<longrightarrow>
          (\<forall>im \<in> set (img # rest). \<forall>a \<in> set (extra_attribs (nativespec im)). can_erase cd a)"
    using assms(3) by (simp add: p_def)
  from subimage_loop_plan [OF this] obtain p' where
    r: "subimage_loop cd (img # rest) p = Inr p'" "verbose p' = verbose p"
       "sub_pixels p' = sub_pixels p @ map (\<lambda>im. Cut (Loaded im) (roi p)) (img # rest)"
       "sub_names p' = sub_names p
               @ map (\<lambda>im. getattribute (extra_attribs (nativespec im)) ''name'') (img # rest)"
       "map (\<lambda>s. getattribute (extra_attribs s) ''name'') (sub_specs p')
               = map (\<lambda>s. getattribute (extra_attribs s) ''name'') (sub_specs p)
                 @ map (\<lambda>im. getattribute (extra_attribs (nativespec im)) ''name'') (img # rest)"
       "map spec_window (sub_specs p')
               = map spec_window (sub_specs p) @ replicate (length (img # rest)) (roi_window (roi p))"
       "map channelnames (sub_specs p')
               = map channelnames (sub_specs p) @ map (\<lambda>im. channelnames (nativespec im)) (img # rest)"
    by blast
  have f: "sub_pixels p = []" "sub_names p = []" "sub_specs p = []"
          "roi p = data_window cd img crop"
    by (simp_all add: p_def)
  have n: "nsubimages p > 1" using assms(1) by (cases rest) (simp_all add: p_def)
  have rw: "rewrap cd (img, rest) crop mp rm fixch cmpr verb
              = write_output cd (last (img # rest)) p'"
    using n r(1) by (simp add: rewrap_def Let_def p_def [symmetric] del: subimage_loop.simps)
  have len: "length (sub_specs p') = length (img # rest)"
    using r(7) f(3) by (metis append_Nil length_map list.map(1))
  then have ne: "sub_specs p' \<noteq> []" by auto
  have ws: "written_specs (snd (write_output cd (last (img # rest)) p')) = sub_specs p'"
    by (rule written_specs_parts [OF assms(2) ne])
  have px: "fst (write_output cd (last (img # rest)) p') = Inr True
            \<and> written_pixels (snd (write_output cd (last (img # rest)) p'))
                = map (\<lambda>im. Cut (Loaded im) (data_window cd img crop)) (img # rest)"
    if ok: "open_ok cd" "\<forall>i. append_ok cd i"
  proof -
    have l1: "0 + length (sub_pixels p') \<le> length (sub_specs p')"
      using len by (simp add: r(3) f)
    have l2: "verbose p' \<longrightarrow> 0 + length (sub_pixels p') \<le> length (sub_names p')"
      by (simp add: r(3,4) f)
    from write_parts_all [OF ok(2) l1 l2]
    have wp: "fst (write_parts cd p' 0 (sub_pixels p')) = Inr True"
             "written_pixels (snd (write_parts cd p' 0 (sub_pixels p'))) = sub_pixels p'"
      by simp_all
    show ?thesis
      using wp ok(1) assms(2) ne
      by (simp add: write_output_def Let_def written_pixels_append r(3) f)
  qed
  show ?thesis
    unfolding rw ws using len r(5,6,7) px by (simp add: f)
qed

theorem multipart_source_shares_one_region_witness:
  "snd two_part_file \<noteq> [] \<and> create_ok library_codec \<and> open_ok library_codec
   \<and> map (\<lambda>s. getattribute (extra_attribs s) ''name'')
        (written_specs (snd (rewrap library_codec two_part_file False True True False None False)))
      = [PStr ''rgba'', PStr ''depth'']
   \<and> map channelnames
        (written_specs (snd (rewrap library_codec two_part_file False True True False None False)))
      = [[''R''], [''Z'']]
   \<and> map spec_window
        (written_specs (snd (rewrap library_codec two_part_file False True True False None False)))
      = [(0, 0, 0, 2, 2, 1), (0, 0, 0, 2, 2, 1)]
   \<and> fst (rewrap library_codec two_part_file False True True False None False) = Inr True
   \<and> written_pixels (snd (rewrap library_codec two_part_file False True True False None False))
      = [Cut (Loaded small_part) (get_roi (nativespec small_part)),
         Cut (Loaded large_part) (get_roi (nativespec small_part))]"
proof -
  have ne: "[large_part] \<noteq> []" by simp
  have c: "create_ok library_codec" "open_ok library_codec" "\<forall>i. append_ok library_codec i"
    by (simp_all add: library_codec_def)
  have e: "True \<longrightarrow> (\<forall>im \<in> set (small_part # [large_part]).
              \<forall>a \<in> set (extra_attribs (nativespec im)). can_erase library_codec a)"
    by (simp add: library_codec_def)
  have w: "roi_window (get_roi (nativespec small_part)) = (0, 0, 0, 2, 2, 1)"
          "data_window library_codec small_part False = get_roi (nativespec small_part)"
    by (simp_all add: roi_window_def data_window_def get_roi_def small_part_def black_image_def)
  have a: "getattribute (extra_attribs (nativespec small_part)) ''name'' = PStr ''rgba''"
          "getattribute (extra_attribs (nativespec large_part)) ''name'' = PStr ''depth''"
          "channelnames (nativespec small_part) = [''R'']"
          "channelnames (nativespec large_part) = [''Z'']"
    by (simp_all add: small_part_def large_part_def black_image_def str_attr_def)
  show ?thesis
    using multipart_source_shares_one_region [OF ne c(1) e, of False True False None False] c
    by (simp add: two_part_file_def w a)
qed

section \<open>The data window\<close>

text \<open>
  C4, as stated: with autocrop on an image without a non-zero pixel the region is the
  native region and never empty. The program hands on what \<^verbatim>\<open>nonzero_region\<close> returns;
  for a black 2 x 2 image that is a region without pixels.
\<close>

theorem autocrop_black_image_is_empty:
  "data_window library_codec red_image True \<noteq> get_roi (nativespec red_image)
   \<and> xend (data_window library_codec red_image True)
       = xbegin (data_window library_codec red_image True)
   \<and> yend (data_window library_codec red_image True)
       = ybegin (data_window library_codec red_image True)"
  by (simp add: data_window_def library_codec_def bbox_nonzero_region_def nonzero_at_def
      red_image_def black_image_def get_roi_def Let_def list_ex_iff)

lemma bbox_all_zero:
  assumes "\<forall>col row c. pixels b col row c = 0"
  shows "bbox_nonzero_region b r = r\<lparr>xend := xbegin r, yend := ybegin r\<rparr>"
  using assms by (simp add: bbox_nonzero_region_def nonzero_at_def list_ex_iff)

text \<open>
  C4, amended: without autocrop the region is the native region of subimage 0; with
  autocrop it is exactly the region the library returns from \<^verbatim>\<open>nonzero_region\<close> for
  that native region, with no fallback. For a library that follows its documentation
  and an image without a non-zero pixel this is the empty region at the origin of the
  native one.
\<close>

theorem autocrop_region_is_library_result:
  "roi (init_properties cd (img, rest) False mp rm fixch cmpr verb) = get_roi (nativespec img)
   \<and> roi (init_properties cd (img, rest) True mp rm fixch cmpr verb)
       = nonzero_region cd img (get_roi (nativespec img))
   \<and> (nonzero_region cd = bbox_nonzero_region \<and> (\<forall>col row c. pixels img col row c = 0)
        \<longrightarrow> roi (init_properties cd (img, rest) True mp rm fixch cmpr verb)
             = (get_roi (nativespec img))
                 \<lparr>xend := spec_x (nativespec img), yend := spec_y (nativespec img)\<rparr>)"
  by (auto simp: data_window_def bbox_all_zero get_roi_def)

theorem autocrop_region_is_library_result_witness:
  "nonzero_region library_codec = bbox_nonzero_region
   \<and> pixels red_image 0 0 0 = 0
   \<and> roi (init_properties library_codec (red_image, []) True False False False None False)
       = \<lparr>xbegin = 0, xend = 0, ybegin = 0, yend = 0, zbegin = 0, zend = 1,
          chbegin = 0, chend = 1\<rparr>"
proof -
  have a: "nonzero_region library_codec = bbox_nonzero_region" by (simp add: library_codec_def)
  have b: "\<forall>col row c. pixels red_image col row c = 0"
    by (simp add: red_image_def black_image_def)
  have s: "get_roi (nativespec red_image)
      = \<lparr>xbegin = 0, xend = 2, ybegin = 0, yend = 2, zbegin = 0, zend = 1,
         chbegin = 0, chend = 1\<rparr>" "spec_x (nativespec red_image) = 0"
        "spec_y (nativespec red_image) = 0"
    by (simp_all add: red_image_def black_image_def get_roi_def)
  from autocrop_region_is_library_result [of library_codec red_image "[]" False False False None False]
  have "roi (init_properties library_codec (red_image, []) True False False False None False)
          = (get_roi (nativespec red_image))
              \<lparr>xend := spec_x (nativespec red_image), yend := spec_y (nativespec red_image)\<rparr>"
    using a b by blast
  then show ?thesis using a b by (simp add: s)
qed

end
